theory Spec2Isabelle
  imports Main "HOL-Library.Word"
begin

unbundle bit_operations_syntax

section \<open>Topology resolver (bcache-check.c)\<close>

text \<open>
  The pseudo-filesystem is a predicate on paths: \<open>path_exists p\<close> holds when
  \<open>access(p, F_OK)\<close> does not return -1 (\<open>is_path_exist\<close>; the path is never NULL here).
  Whether \<open>calloc\<close> succeeds is an input as well.
\<close>

definition isdigit :: "char \<Rightarrow> bool" where
  "isdigit c = (48 \<le> (of_char c :: nat) \<and> (of_char c :: nat) \<le> 57)"

definition NUL :: char where
  "NUL = CHR 0x00"

text \<open>The bytes of a char array read as a C string: up to the first NUL.\<close>

definition c_str :: "char list \<Rightarrow> string" where
  "c_str buf = takeWhile (\<lambda>c. c \<noteq> NUL) buf"

text \<open>
  The scanning loop of \<open>get_parent_device\<close>:
  \<^verbatim>\<open>for (i = length - 1; i >= 0; i--)\<close>. \<open>scan_name dev n (end, digit_end)\<close> is the loop
  about to run with \<open>i = n - 1\<close> (and finished when \<open>n = 0\<close>); it returns the final
  \<open>(end, digit_end)\<close>.
\<close>

fun scan_name :: "string \<Rightarrow> nat \<Rightarrow> nat \<times> nat \<Rightarrow> nat \<times> nat" where
  "scan_name dev 0 st = st"
| "scan_name dev (Suc i) (e, de) =
     (if \<not> isdigit (dev ! i)
      then (if dev ! i = CHR ''p'' \<and> i \<noteq> length dev - 1 then (i, de) else (e, de))
      else scan_name dev i (e, i))"

definition sys_block_path :: "string \<Rightarrow> string \<Rightarrow> string" where
  "sys_block_path p dev = ''/sys/block/'' @ p @ ''/'' @ dev @ ''/''"

text \<open>\<open>memcpy(base, p, n)\<close> on the caller's buffer \<open>base\<close>, for \<open>n\<close> within the buffer.\<close>

definition memcpy_chars :: "char list \<Rightarrow> char list \<Rightarrow> nat \<Rightarrow> char list" where
  "memcpy_chars base p n = take n p @ drop n base"

text \<open>
  \<open>get_parent_device path_exists alloc_ok dev base\<close> returns the function's result and the
  new contents of the buffer \<open>base\<close>. \<open>None\<close> stands for the two places where the C code
  leaves defined behaviour: \<open>sprintf\<close> writing a path of 100 bytes or more into \<open>buf[100]\<close>,
  and \<open>memcpy\<close> past the end of \<open>base\<close>.
\<close>

definition get_parent_device ::
  "(string \<Rightarrow> bool) \<Rightarrow> bool \<Rightarrow> string \<Rightarrow> char list \<Rightarrow> (nat \<times> char list) option" where
  "get_parent_device path_exists alloc_ok dev base =
     (if length dev < 2 then Some (0, base)
      else
        let (e, digit_end) = scan_name dev (length dev) (0, 0) in
        if digit_end = 0 then Some (0, base)
        else if \<not> alloc_ok then Some (0, base)
        else
          let p = take digit_end dev in
          if length (sys_block_path p dev) \<ge> 100 then None
          else if path_exists (sys_block_path p dev)
          then (if digit_end \<le> length base
                then Some (digit_end, memcpy_chars base p digit_end) else None)
          else if e = 0 then Some (0, base)
          else
            let p' = take e dev in
            if path_exists (sys_block_path p' dev)
            then (if e \<le> length base then Some (e, memcpy_chars base p' e) else None)
            else Some (0, base))"

text \<open>The caller's buffer: \<^verbatim>\<open>char device[100] = {0}\<close> in \<open>main\<close>.\<close>

definition device_buf :: "char list" where
  "device_buf = replicate 100 NUL"

text \<open>A pseudo-filesystem exposing exactly the two partition directories of the example.\<close>

definition sysfs_example :: "string \<Rightarrow> bool" where
  "sysfs_example p = (p = ''/sys/block/sda/sda1/'' \<or> p = ''/sys/block/nvme0n1/nvme0n1p1/'')"

section \<open>Size arguments (make-bcache.c)\<close>

text \<open>Every \<open>exit(EXIT_FAILURE)\<close> of the format tool, named after what it reports.\<close>

datatype failure =
    Must_be_power_of_two string
  | Too_large string
  | Too_small string
  | Cant_open_dev
  | Short_read
  | Already_a_bcache_device
  | Probe_setup_failed
  | Non_bcache_superblock
  | Data_offset_too_small
  | Not_enough_buckets
  | Division_by_zero
  | Write_error
  | Not_a_bcache_device
  | Not_a_backing_device
  | Specify_new_bdev_uuid
  | Specify_new_cset_uuid
  | Data_offset_must_use
  | Bad_uuid
  | Bad_sb_num
  | Bad_superblock_index
  | Usage
  | Specify_C_or_B
  | Stat_error
  | Bucket_smaller_than_block
  | Bad_data_offset
  | Only_one_backing_device

definition isspace :: "char \<Rightarrow> bool" where
  "isspace c = ((of_char c :: nat) = 32 \<or> (9 \<le> (of_char c :: nat) \<and> (of_char c :: nat) \<le> 13))"

text \<open>
  \<open>strtoll(s, &e, 10)\<close> of the C library: leading white space, an optional sign, a run of
  decimal digits; the value is clamped to the range of \<open>long long\<close>; \<open>e\<close> is the rest of
  the string after the digits, or \<open>s\<close> itself when there is no digit to convert.
\<close>

fun digits_val :: "string \<Rightarrow> int \<Rightarrow> int \<times> string" where
  "digits_val [] acc = (acc, [])"
| "digits_val (c # cs) acc =
     (if isdigit c then digits_val cs (10 * acc + ((of_char c :: int) - 48)) else (acc, c # cs))"

definition LLONG_MAX :: int where
  "LLONG_MAX = 2 ^ 63 - 1"

definition LLONG_MIN :: int where
  "LLONG_MIN = - (2 ^ 63)"

definition strtoll :: "string \<Rightarrow> int \<times> string" where
  "strtoll s =
     (let t = dropWhile isspace s;
          (neg, u) = (case t of
                        [] \<Rightarrow> (False, t)
                      | c # r \<Rightarrow> if c = CHR ''-'' then (True, r)
                                else if c = CHR ''+'' then (False, r) else (False, t))
      in case u of
           [] \<Rightarrow> (0, s)
         | d # _ \<Rightarrow>
             if \<not> isdigit d then (0, s)
             else let (n, e) = digits_val u 0;
                      v = (if neg then - n else n)
                  in (max LLONG_MIN (min LLONG_MAX v), e))"

text \<open>
  \<open>hatoi\<close>: the \<open>switch\<close> falls through, so \<open>t\<close> multiplies four times, \<open>g\<close> three times,
  \<open>m\<close> twice and \<open>k\<close> once. \<open>i\<close> is a \<open>long long\<close>, held here as a 64-bit word whose
  multiplication wraps (two's complement); the result is returned as \<open>uint64_t\<close>.
\<close>

definition suffix_level :: "string \<Rightarrow> nat" where
  "suffix_level e =
     (case e of
        [] \<Rightarrow> 0
      | c # _ \<Rightarrow>
          if c = CHR ''t'' \<or> c = CHR ''T'' then 4
          else if c = CHR ''g'' \<or> c = CHR ''G'' then 3
          else if c = CHR ''m'' \<or> c = CHR ''M'' then 2
          else if c = CHR ''k'' \<or> c = CHR ''K'' then 1
          else 0)"

fun times_1024 :: "nat \<Rightarrow> 64 word \<Rightarrow> 64 word" where
  "times_1024 0 i = i"
| "times_1024 (Suc n) i = times_1024 n (i * 1024)"

definition hatoi :: "string \<Rightarrow> 64 word" where
  "hatoi s = (let (i, e) = strtoll s in times_1024 (suffix_level e) (word_of_int i))"

definition USHRT_MAX :: "64 word" where
  "USHRT_MAX = 65535"

text \<open>\<open>hatoi_validate\<close> returns \<open>unsigned\<close>; \<open>Inl\<close> is the \<open>exit(EXIT_FAILURE)\<close>.\<close>

definition hatoi_validate :: "string \<Rightarrow> string \<Rightarrow> failure + 32 word" where
  "hatoi_validate s msg =
     (let v = hatoi s in
      if v AND (v - 1) \<noteq> 0 then Inl (Must_be_power_of_two msg)
      else let v' = v div 512 in
        if v' > USHRT_MAX then Inl (Too_large msg)
        else if v' = 0 then Inl (Too_small msg)
        else Inr (ucast v'))"

text \<open>
  What a size argument denotes, in the words of the specification: a run of decimal
  digits read as a number of bytes, multiplied by 1024 once for the suffix \<open>k\<close> or \<open>K\<close>,
  twice for \<open>m\<close> or \<open>M\<close>, three times for \<open>g\<close> or \<open>G\<close> and four times for \<open>t\<close> or \<open>T\<close>.
  These two definitions are not taken from \<open>hatoi\<close>; they are what its result is
  compared with.
\<close>

definition dec_val :: "string \<Rightarrow> int" where
  "dec_val ds = foldl (\<lambda>a c. 10 * a + ((of_char c :: int) - 48)) 0 ds"

definition suffix_factor :: "string \<Rightarrow> int" where
  "suffix_factor rest =
     (case rest of
        [] \<Rightarrow> 1
      | c # _ \<Rightarrow>
          if c = CHR ''k'' \<or> c = CHR ''K'' then 1024
          else if c = CHR ''m'' \<or> c = CHR ''M'' then 1024 * 1024
          else if c = CHR ''g'' \<or> c = CHR ''G'' then 1024 * 1024 * 1024
          else if c = CHR ''t'' \<or> c = CHR ''T'' then 1024 * 1024 * 1024 * 1024
          else 1)"

definition denoted_bytes :: "string \<Rightarrow> string \<Rightarrow> int" where
  "denoted_bytes ds rest = dec_val ds * suffix_factor rest"

section \<open>The superblock and the declarations of bcache.h\<close>

type_synonym byte = "8 word"

text \<open>\<open>uuid_t\<close> and the magic are arrays of 16 bytes; an array of \<open>n\<close> bytes is kept as a word
  of \<open>8 * n\<close> bits, so that \<open>memcmp\<close> over the whole array is equality.\<close>

type_synonym uuid_t = "128 word"

text \<open>
  \<open>struct cache_sb\<close>. The tool assigns \<open>csum\<close>, \<open>offset\<close>, \<open>version\<close>, \<open>magic\<close>, \<open>uuid\<close>,
  \<open>set_uuid\<close>, \<open>bucket_size\<close>, \<open>block_size\<close>, \<open>nbuckets\<close>, \<open>data_offset\<close>, \<open>nr_in_set\<close>,
  \<open>first_bucket\<close> and, through the \<open>SET_\<close> macros, the flags word; the other members are
  only ever zeroed by \<open>memset\<close>. \<open>nbuckets\<close> (cache devices) and \<open>data_offset\<close> (backing
  devices) are the two names of one 8-byte member, an anonymous union.
\<close>

record cache_sb =
  csum :: "64 word"
  offset :: "64 word"
  version :: "64 word"
  magic :: "128 word"
  uuid :: uuid_t
  set_uuid :: uuid_t
  label :: "256 word"
  flags :: "64 word"
  seq :: "64 word"
  pad :: "512 word"
  nbuckets :: "64 word"
  block_size :: "16 word"
  bucket_size :: "16 word"
  nr_in_set :: "16 word"
  nr_this_dev :: "16 word"
  last_mount :: "32 word"
  first_bucket :: "16 word"
  keys :: "16 word"
  journal_d :: "16384 word"

definition data_offset :: "cache_sb \<Rightarrow> 64 word" where
  "data_offset sb = nbuckets sb"

text \<open>\<open>memset(&sb, 0, sizeof(struct cache_sb))\<close>.\<close>

definition zero_sb :: cache_sb where
  "zero_sb = \<lparr> csum = 0, offset = 0, version = 0, magic = 0, uuid = 0, set_uuid = 0,
      label = 0, flags = 0, seq = 0, pad = 0, nbuckets = 0, block_size = 0, bucket_size = 0,
      nr_in_set = 0, nr_this_dev = 0, last_mount = 0, first_bucket = 0, keys = 0,
      journal_d = 0 \<rparr>"

text \<open>
  The header \<open>bcache.h\<close> is not among the sources. What the tool takes from it is a
  parameter of the development: the constants, the macros (the four \<open>SET_\<close> macros and
  \<open>BDEV_STATE\<close> as functions on the flags word, \<open>SB_IS_BDEV\<close> as a predicate on the version),
  the checksum \<open>csum_set\<close>, and the memory layout of \<open>struct cache_sb\<close>: its size and the
  two directions between the struct and its bytes.
  \<open>SB_START\<close> is a byte count (it is also the length of the array \<open>zeroes\<close>);
  \<open>SB_OFFSET i\<close> is the byte offset of copy \<open>i\<close>; \<open>BDEV_DATA_OFFSET n\<close> is taken after its
  conversion to \<open>uint64_t\<close>, the type it is compared with and assigned to.
\<close>

record bcache_h =
  SB_SECTOR :: int
  SB_START :: nat
  SB_OFFSET :: "int \<Rightarrow> int"
  SB_JOURNAL_BUCKETS :: "64 word"
  BDEV_DATA_START_DEFAULT :: int
  BDEV_DATA_OFFSET :: "int \<Rightarrow> 64 word"
  BDEV_SB_NUM_MAX :: int
  BCACHE_SB_VERSION_CDEV :: "64 word"
  BCACHE_SB_VERSION_BDEV :: "64 word"
  BCACHE_SB_VERSION_BDEV_WITH_OFFSET :: "64 word"
  SB_IS_BDEV :: "64 word \<Rightarrow> bool"
  bcache_magic :: "128 word"
  BDEV_STATE_DIRTY :: "64 word"
  CACHE_MODE_WRITEBACK :: "64 word"
  CACHE_MODE_WRITETHROUGH :: "64 word"
  SET_BDEV_STATE :: "64 word \<Rightarrow> 64 word \<Rightarrow> 64 word"
  SET_BDEV_CACHE_MODE :: "64 word \<Rightarrow> 64 word \<Rightarrow> 64 word"
  SET_CACHE_DISCARD :: "64 word \<Rightarrow> 64 word \<Rightarrow> 64 word"
  SET_CACHE_REPLACEMENT :: "64 word \<Rightarrow> 64 word \<Rightarrow> 64 word"
  BDEV_STATE :: "64 word \<Rightarrow> 64 word"
  bucket_to_offset :: "cache_sb \<Rightarrow> int \<Rightarrow> 64 word"
  csum_set :: "cache_sb \<Rightarrow> 64 word"
  sizeof_sb :: nat
  sb_bytes :: "cache_sb \<Rightarrow> byte list"
  bytes_sb :: "byte list \<Rightarrow> cache_sb"

text \<open>A value of type \<open>int\<close> after an arithmetic operation: 32 bits, two's complement.\<close>

definition c_int :: "int \<Rightarrow> int" where
  "c_int x = sint (word_of_int x :: 32 word)"

section \<open>Devices\<close>

text \<open>
  A device is its size in bytes, its contents, and what the environment answers for it:
  whether \<open>open(O_RDWR|O_EXCL)\<close> succeeds, whether the blkid probe can be set up, what
  \<open>blkid_do_probe\<close> returns (0 when it finds a signature) and the block size that
  \<open>get_blocksize\<close> queries. \<open>wlog\<close> records every \<open>pwrite\<close> that succeeded, oldest first.
  A transfer succeeds when it lies within the device; I/O errors are not modelled.
\<close>

record device =
  dev_size :: nat
  contents :: "nat \<Rightarrow> byte"
  wlog :: "(nat \<times> byte list) list"
  excl_open_ok :: bool
  probe_setup_ok :: bool
  blkid_do_probe :: int
  logical_block_size :: "32 word"

definition read_bytes :: "(nat \<Rightarrow> byte) \<Rightarrow> nat \<Rightarrow> nat \<Rightarrow> byte list" where
  "read_bytes f off n = map f [off ..< off + n]"

definition blit :: "(nat \<Rightarrow> byte) \<Rightarrow> nat \<Rightarrow> byte list \<Rightarrow> (nat \<Rightarrow> byte)" where
  "blit f off bs = (\<lambda>a. if off \<le> a \<and> a < off + length bs then bs ! (a - off) else f a)"

definition pread :: "device \<Rightarrow> nat \<Rightarrow> int \<Rightarrow> byte list option" where
  "pread dev n off =
     (if 0 \<le> off \<and> nat off + n \<le> dev_size dev
      then Some (read_bytes (contents dev) (nat off) n) else None)"

definition pwrite :: "device \<Rightarrow> byte list \<Rightarrow> int \<Rightarrow> device option" where
  "pwrite dev bs off =
     (if 0 \<le> off \<and> nat off + length bs \<le> dev_size dev
      then Some (dev\<lparr> contents := blit (contents dev) (nat off) bs,
                      wlog := wlog dev @ [(nat off, bs)] \<rparr>)
      else None)"

text \<open>\<open>getblocks\<close>: the size in 512-byte sectors, from \<open>st_size\<close> or from \<open>BLKGETSIZE\<close>.\<close>

definition getblocks :: "device \<Rightarrow> 64 word" where
  "getblocks dev = word_of_nat (dev_size dev div 512)"

text \<open>The record stored at a byte offset of a device, as \<open>pread\<close> into a struct sees it.\<close>

definition sb_at :: "bcache_h \<Rightarrow> device \<Rightarrow> int \<Rightarrow> cache_sb" where
  "sb_at H dev off = bytes_sb H (read_bytes (contents dev) (nat off) (sizeof_sb H))"

section \<open>The format path: write_sb\<close>

text \<open>
  A run of a function of the tool ends in one of three ways: it returns, it calls
  \<open>exit(EXIT_FAILURE)\<close>, or it never ends. The first two are \<open>(None, state)\<close> and
  \<open>(Some failure, state)\<close>, with the state at the moment of the return or of the exit;
  where a loop may run forever the whole result is wrapped in \<open>option\<close>, \<open>None\<close> standing
  for a run that does not end.
\<close>

text \<open>Lines 282-294 of \<open>write_sb\<close>: the zeroed struct with its fixed members stamped.\<close>

definition sb_init ::
  "bcache_h \<Rightarrow> bool \<Rightarrow> uuid_t \<Rightarrow> uuid_t \<Rightarrow> 32 word \<Rightarrow> 32 word \<Rightarrow> cache_sb" where
  "sb_init H bdev set_uuid_arg bdev_uuid block_size_arg bucket_size_arg =
     zero_sb\<lparr> offset := word_of_int (SB_SECTOR H),
              version := (if bdev then BCACHE_SB_VERSION_BDEV H else BCACHE_SB_VERSION_CDEV H),
              magic := bcache_magic H,
              uuid := bdev_uuid,
              set_uuid := set_uuid_arg,
              bucket_size := ucast bucket_size_arg,
              block_size := ucast block_size_arg \<rparr>"

text \<open>\<open>BDEV_DATA_START_DEFAULT + sb_num * SB_SECTOR\<close>, computed in \<open>int\<close> and converted to
  \<open>uint64_t\<close> for the comparison with \<open>sb.data_offset\<close>.\<close>

definition required_data_offset :: "bcache_h \<Rightarrow> int \<Rightarrow> 64 word" where
  "required_data_offset H sb_num =
     word_of_int (c_int (BDEV_DATA_START_DEFAULT H + c_int (sb_num * SB_SECTOR H)))"

text \<open>The backing-device branch, lines 300-314.\<close>

definition sb_backing ::
  "bcache_h \<Rightarrow> cache_sb \<Rightarrow> bool \<Rightarrow> bool \<Rightarrow> 64 word \<Rightarrow> int \<Rightarrow> failure + cache_sb" where
  "sb_backing H sb writeback dirty data_offset_arg sb_num =
     (let sb1 = (if dirty
                 then sb\<lparr> flags := SET_BDEV_STATE H (BDEV_STATE_DIRTY H) (flags sb) \<rparr>
                 else sb);
          sb2 = sb1\<lparr> flags := SET_BDEV_CACHE_MODE H
                           (if writeback then CACHE_MODE_WRITEBACK H
                            else CACHE_MODE_WRITETHROUGH H) (flags sb1) \<rparr>;
          sb3 = (if data_offset_arg \<noteq> word_of_int (BDEV_DATA_START_DEFAULT H)
                 then sb2\<lparr> version := BCACHE_SB_VERSION_BDEV_WITH_OFFSET H,
                           nbuckets := data_offset_arg \<rparr>
                 else sb2)
      in if data_offset sb3 < required_data_offset H sb_num
         then Inl Data_offset_too_small
         else Inr sb3)"

text \<open>The cache-device branch, lines 326-337. Dividing by a zero \<open>bucket_size\<close> traps.\<close>

definition sb_cache ::
  "bcache_h \<Rightarrow> cache_sb \<Rightarrow> 64 word \<Rightarrow> bool \<Rightarrow> 32 word \<Rightarrow> failure + cache_sb" where
  "sb_cache H sb nblocks discard policy =
     (if bucket_size sb = 0 then Inl Division_by_zero
      else
        let sb1 = sb\<lparr> nbuckets := nblocks div ucast (bucket_size sb),
                       nr_in_set := 1,
                       first_bucket := word_of_int (23 div uint (bucket_size sb) + 1) \<rparr>
        in if nbuckets sb1 < 128 then Inl Not_enough_buckets
           else Inr (sb1\<lparr> flags := SET_CACHE_REPLACEMENT H (ucast policy)
                                 (SET_CACHE_DISCARD H (if discard then 1 else 0)
                                    (flags sb1)) \<rparr>))"

text \<open>The 10-byte tag written at offset 0, lines 365-377.\<close>

definition ascii_bytes :: "string \<Rightarrow> byte list" where
  "ascii_bytes s = map (\<lambda>c. of_char c) s"

definition write_marker :: "bool \<Rightarrow> bool \<Rightarrow> device \<Rightarrow> device option" where
  "write_marker alcubierre_dev skip_udev_register dev =
     (if alcubierre_dev then pwrite dev (ascii_bytes ''alcubierre'') 0
      else if skip_udev_register then pwrite dev (ascii_bytes ''##skipudev'') 0
      else Some dev)"

text \<open>
  The loop over the secondary copies, lines 387-409, about to run with index \<open>i\<close>.
  \<open>gen\<close> is the sequence of values that \<open>uuid_generate\<close> produces during the run and \<open>k\<close>
  the number of calls made so far. The struct is the one left by the previous write.
\<close>

function write_secondaries ::
  "bcache_h \<Rightarrow> (nat \<Rightarrow> uuid_t) \<Rightarrow> cache_sb \<Rightarrow> device \<Rightarrow> nat \<Rightarrow> int \<Rightarrow> int
     \<Rightarrow> failure option \<times> device \<times> nat" where
  "write_secondaries H gen sb dev k i sb_num =
     (if i < sb_num
      then
        let sb1 = sb\<lparr> offset := word_of_int (SB_SECTOR H), uuid := gen k,
                       set_uuid := gen (k + 1) \<rparr>;
            sb2 = sb1\<lparr> csum := csum_set H sb1 \<rparr>
        in case pwrite dev (sb_bytes H sb2) (SB_OFFSET H i) of
             None \<Rightarrow> (Some Write_error, dev, k + 2)
           | Some dev' \<Rightarrow> write_secondaries H gen sb2 dev' (k + 2) (i + 1) sb_num
      else (None, dev, k))"
  by pat_completeness auto
termination
  by (relation "measure (\<lambda>(H, gen, sb, dev, k, i, sb_num). nat (sb_num - i))") auto

text \<open>
  Zeroing one bucket of the journal, lines 418-425: \<open>while (offset < end)\<close> writes
  \<open>min(end - offset, SB_START)\<close> zero bytes and advances. With \<open>SB_START = 0\<close> it would
  write nothing and never advance.
\<close>

partial_function (option) zero_range ::
  "bcache_h \<Rightarrow> device \<Rightarrow> 64 word \<Rightarrow> 64 word \<Rightarrow> (failure option \<times> device) option" where
  "zero_range H dev off end_off =
     (if off < end_off
      then (case pwrite dev (replicate (unat (min (end_off - off) (word_of_nat (SB_START H)))) 0)
                   (sint off) of
              None \<Rightarrow> Some (Some Write_error, dev)
            | Some dev' \<Rightarrow>
                zero_range H dev' (off + min (end_off - off) (word_of_nat (SB_START H))) end_off)
      else Some (None, dev))"

text \<open>The loop over the journal buckets, lines 415-426, about to run with index \<open>i\<close>.\<close>

function zero_journal ::
  "bcache_h \<Rightarrow> cache_sb \<Rightarrow> device \<Rightarrow> int \<Rightarrow> int \<Rightarrow> (failure option \<times> device) option" where
  "zero_journal H sb dev i end_i =
     (if i < end_i
      then (case zero_range H dev (bucket_to_offset H sb i) (bucket_to_offset H sb (i + 1)) of
              None \<Rightarrow> None
            | Some (Some e, dev') \<Rightarrow> Some (Some e, dev')
            | Some (None, dev') \<Rightarrow> zero_journal H sb dev' (i + 1) end_i)
      else Some (None, dev))"
  by pat_completeness auto
termination
  by (relation "measure (\<lambda>(H, sb, dev, i, end_i). nat (end_i - i))") auto

text \<open>Lines 254-280: the checks on the device before anything is built or written.\<close>

definition open_checks :: "bcache_h \<Rightarrow> device \<Rightarrow> bool \<Rightarrow> failure option" where
  "open_checks H dev wipe_bcache =
     (if \<not> excl_open_ok dev then Some Cant_open_dev
      else case pread dev (sizeof_sb H) (int (SB_START H)) of
        None \<Rightarrow> Some Short_read
      | Some old \<Rightarrow>
        if magic (bytes_sb H old) = bcache_magic H \<and> \<not> wipe_bcache
        then Some Already_a_bcache_device
        else if \<not> probe_setup_ok dev then Some Probe_setup_failed
        else if blkid_do_probe dev = 0 then Some Non_bcache_superblock
        else None)"

text \<open>Lines 282-358: the struct of the primary copy, checksum included.\<close>

definition build_sb ::
  "bcache_h \<Rightarrow> device \<Rightarrow> 32 word \<Rightarrow> 32 word \<Rightarrow> bool \<Rightarrow> bool \<Rightarrow> 32 word \<Rightarrow> 64 word \<Rightarrow>
   uuid_t \<Rightarrow> bool \<Rightarrow> uuid_t \<Rightarrow> bool \<Rightarrow> int \<Rightarrow> failure + cache_sb" where
  "build_sb H dev block_size_arg bucket_size_arg writeback discard
     cache_replacement_policy data_offset_arg set_uuid_arg bdev bdev_uuid dirty sb_num =
     (let sb0 = sb_init H bdev set_uuid_arg bdev_uuid block_size_arg bucket_size_arg in
      case (if SB_IS_BDEV H (version sb0)
            then sb_backing H sb0 writeback dirty data_offset_arg sb_num
            else sb_cache H sb0 (getblocks dev) discard cache_replacement_policy) of
        Inl e \<Rightarrow> Inl e
      | Inr sb1 \<Rightarrow> Inr (sb1\<lparr> csum := csum_set H sb1 \<rparr>))"

text \<open>Lines 360-382: the zeroed header, the tag, the primary record.\<close>

definition write_primary ::
  "bcache_h \<Rightarrow> bool \<Rightarrow> bool \<Rightarrow> device \<Rightarrow> cache_sb \<Rightarrow> failure option \<times> device" where
  "write_primary H alcubierre_dev skip_udev_register dev sb =
     (case pwrite dev (replicate (SB_START H) 0) 0 of
        None \<Rightarrow> (Some Write_error, dev)
      | Some dev1 \<Rightarrow>
          case write_marker alcubierre_dev skip_udev_register dev1 of
            None \<Rightarrow> (Some Write_error, dev1)
          | Some dev2 \<Rightarrow>
              case pwrite dev2 (sb_bytes H sb) (int (SB_START H)) of
                None \<Rightarrow> (Some Write_error, dev2)
              | Some dev3 \<Rightarrow> (None, dev3))"

text \<open>Lines 384-427: the secondary copies of a backing device, or the journal of a cache
  device.\<close>

definition write_rest ::
  "bcache_h \<Rightarrow> (nat \<Rightarrow> uuid_t) \<Rightarrow> cache_sb \<Rightarrow> device \<Rightarrow> int \<Rightarrow> nat
     \<Rightarrow> (failure option \<times> device \<times> nat) option" where
  "write_rest H gen sb dev sb_num k =
     (if SB_IS_BDEV H (version sb)
      then Some (write_secondaries H gen sb dev k 1 sb_num)
      else map_option (\<lambda>(r, dev'). (r, dev', k))
             (zero_journal H sb dev (uint (first_bucket sb))
                (c_int (uint (min (nbuckets sb)
                   (ucast (first_bucket sb) + SB_JOURNAL_BUCKETS H))))))"

text \<open>
  \<open>write_sb\<close>. The first argument of the C function, the device path, is here the device
  it names; the two file-scope flags \<open>alcubierre_dev\<close> and \<open>skip_udev_register\<close> are
  arguments. The result carries the device and the count of \<open>uuid_generate\<close> calls.
\<close>

definition write_sb ::
  "bcache_h \<Rightarrow> (nat \<Rightarrow> uuid_t) \<Rightarrow> bool \<Rightarrow> bool \<Rightarrow>
   device \<Rightarrow> 32 word \<Rightarrow> 32 word \<Rightarrow> bool \<Rightarrow> bool \<Rightarrow> bool \<Rightarrow> 32 word \<Rightarrow> 64 word \<Rightarrow>
   uuid_t \<Rightarrow> bool \<Rightarrow> uuid_t \<Rightarrow> bool \<Rightarrow> int \<Rightarrow> nat
   \<Rightarrow> (failure option \<times> device \<times> nat) option" where
  "write_sb H gen alcubierre_dev skip_udev_register
     dev block_size_arg bucket_size_arg writeback discard wipe_bcache
     cache_replacement_policy data_offset_arg set_uuid_arg bdev bdev_uuid dirty sb_num k =
     (case open_checks H dev wipe_bcache of
        Some e \<Rightarrow> Some (Some e, dev, k)
      | None \<Rightarrow>
          case build_sb H dev block_size_arg bucket_size_arg writeback discard
                 cache_replacement_policy data_offset_arg set_uuid_arg bdev bdev_uuid
                 dirty sb_num of
            Inl e \<Rightarrow> Some (Some e, dev, k)
          | Inr sb \<Rightarrow>
              case write_primary H alcubierre_dev skip_udev_register dev sb of
                (Some e, dev') \<Rightarrow> Some (Some e, dev', k)
              | (None, dev3) \<Rightarrow> write_rest H gen sb dev3 sb_num k)"

section \<open>The reset path: reset_backing_sb\<close>

text \<open>
  Lines 478-496: the struct rebuilt from zero around the three saved members of the
  record that was read, before its checksum is computed.
\<close>

definition reset_sb :: "bcache_h \<Rightarrow> cache_sb \<Rightarrow> uuid_t \<Rightarrow> uuid_t \<Rightarrow> cache_sb" where
  "reset_sb H old set_uuid_arg bdev_uuid =
     (let sb0 = zero_sb\<lparr> offset := word_of_int (SB_SECTOR H),
                          version := BCACHE_SB_VERSION_BDEV H,
                          magic := bcache_magic H,
                          uuid := bdev_uuid,
                          set_uuid := set_uuid_arg,
                          bucket_size := bucket_size old,
                          block_size := block_size old \<rparr>
      in if data_offset old \<noteq> word_of_int (BDEV_DATA_START_DEFAULT H)
         then sb0\<lparr> version := BCACHE_SB_VERSION_BDEV_WITH_OFFSET H,
                   nbuckets := data_offset old \<rparr>
         else sb0)"

definition reset_backing_sb ::
  "bcache_h \<Rightarrow> device \<Rightarrow> bool \<Rightarrow> int \<Rightarrow> uuid_t \<Rightarrow> uuid_t \<Rightarrow> failure option \<times> device" where
  "reset_backing_sb H dev wipe_bcache sb_idx set_uuid_arg bdev_uuid =
     (if \<not> excl_open_ok dev then (Some Cant_open_dev, dev)
      else case pread dev (sizeof_sb H) (SB_OFFSET H sb_idx) of
        None \<Rightarrow> (Some Short_read, dev)
      | Some bs \<Rightarrow>
        let old = bytes_sb H bs in
        if magic old = bcache_magic H \<and> \<not> wipe_bcache then (Some Already_a_bcache_device, dev)
        else if magic old \<noteq> bcache_magic H then (Some Not_a_bcache_device, dev)
        else if \<not> SB_IS_BDEV H (version old) then (Some Not_a_backing_device, dev)
        else if uuid old = bdev_uuid then (Some Specify_new_bdev_uuid, dev)
        else if set_uuid old = set_uuid_arg then (Some Specify_new_cset_uuid, dev)
        else
          let sb = reset_sb H old set_uuid_arg bdev_uuid in
          if data_offset sb \<noteq> data_offset old then (Some Data_offset_must_use, dev)
          else case pwrite dev (sb_bytes H (sb\<lparr> csum := csum_set H sb \<rparr>))
                      (SB_OFFSET H sb_idx) of
                 None \<Rightarrow> (Some Write_error, dev)
               | Some dev' \<Rightarrow> (None, dev'))"

section \<open>An instance of the header\<close>

text \<open>
  The theorems below hold for every header that satisfies the hypotheses they state.
  That these hypotheses can be met together is shown on one header, \<open>example_h\<close>:
  little-endian members in declaration order without padding, 2256 bytes in all, the
  values of the mainline bcache header for the constants and the bit-field macros, copy
  \<open>i\<close> at byte \<open>4096 * (i + 1)\<close>, and a stand-in for the checksum.
\<close>

fun le_bytes :: "nat \<Rightarrow> nat \<Rightarrow> byte list" where
  "le_bytes 0 v = []"
| "le_bytes (Suc n) v = word_of_nat (v mod 256) # le_bytes n (v div 256)"

fun le_val :: "byte list \<Rightarrow> nat" where
  "le_val [] = 0"
| "le_val (b # bs) = unat b + 256 * le_val bs"

definition example_sb_bytes :: "cache_sb \<Rightarrow> byte list" where
  "example_sb_bytes sb =
     le_bytes 8 (unat (csum sb)) @
     le_bytes 8 (unat (offset sb)) @
     le_bytes 8 (unat (version sb)) @
     le_bytes 16 (unat (magic sb)) @
     le_bytes 16 (unat (uuid sb)) @
     le_bytes 16 (unat (set_uuid sb)) @
     le_bytes 32 (unat (label sb)) @
     le_bytes 8 (unat (flags sb)) @
     le_bytes 8 (unat (seq sb)) @
     le_bytes 64 (unat (pad sb)) @
     le_bytes 8 (unat (nbuckets sb)) @
     le_bytes 2 (unat (block_size sb)) @
     le_bytes 2 (unat (bucket_size sb)) @
     le_bytes 2 (unat (nr_in_set sb)) @
     le_bytes 2 (unat (nr_this_dev sb)) @
     le_bytes 4 (unat (last_mount sb)) @
     le_bytes 2 (unat (first_bucket sb)) @
     le_bytes 2 (unat (keys sb)) @
     le_bytes 2048 (unat (journal_d sb))"

definition example_bytes_sb :: "byte list \<Rightarrow> cache_sb" where
  "example_bytes_sb bs =
     \<lparr> csum = word_of_nat (le_val (take 8 (drop 0 bs))),
       offset = word_of_nat (le_val (take 8 (drop 8 bs))),
       version = word_of_nat (le_val (take 8 (drop 16 bs))),
       magic = word_of_nat (le_val (take 16 (drop 24 bs))),
       uuid = word_of_nat (le_val (take 16 (drop 40 bs))),
       set_uuid = word_of_nat (le_val (take 16 (drop 56 bs))),
       label = word_of_nat (le_val (take 32 (drop 72 bs))),
       flags = word_of_nat (le_val (take 8 (drop 104 bs))),
       seq = word_of_nat (le_val (take 8 (drop 112 bs))),
       pad = word_of_nat (le_val (take 64 (drop 120 bs))),
       nbuckets = word_of_nat (le_val (take 8 (drop 184 bs))),
       block_size = word_of_nat (le_val (take 2 (drop 192 bs))),
       bucket_size = word_of_nat (le_val (take 2 (drop 194 bs))),
       nr_in_set = word_of_nat (le_val (take 2 (drop 196 bs))),
       nr_this_dev = word_of_nat (le_val (take 2 (drop 198 bs))),
       last_mount = word_of_nat (le_val (take 4 (drop 200 bs))),
       first_bucket = word_of_nat (le_val (take 2 (drop 204 bs))),
       keys = word_of_nat (le_val (take 2 (drop 206 bs))),
       journal_d = word_of_nat (le_val (take 2048 (drop 208 bs))) \<rparr>"

text \<open>The \<open>BITMASK\<close> accessors: a field of \<open>sz\<close> bits at bit \<open>off\<close> of the flags word.\<close>

definition bitmask_get :: "nat \<Rightarrow> nat \<Rightarrow> 64 word \<Rightarrow> 64 word" where
  "bitmask_get off sz fl = drop_bit off fl AND mask sz"

definition bitmask_set :: "nat \<Rightarrow> nat \<Rightarrow> 64 word \<Rightarrow> 64 word \<Rightarrow> 64 word" where
  "bitmask_set off sz v fl = (fl AND NOT (push_bit off (mask sz))) OR push_bit off v"

definition example_csum :: "cache_sb \<Rightarrow> 64 word" where
  "example_csum sb = version sb + flags sb + nbuckets sb + ucast (uuid sb) + ucast (set_uuid sb)
     + ucast (block_size sb) + ucast (bucket_size sb) + 1"

definition example_h :: bcache_h where
  "example_h = \<lparr>
     SB_SECTOR = 8,
     SB_START = 4096,
     SB_OFFSET = (\<lambda>i. 4096 * (i + 1)),
     SB_JOURNAL_BUCKETS = 256,
     BDEV_DATA_START_DEFAULT = 16,
     BDEV_DATA_OFFSET = (\<lambda>n. word_of_int (16 + n * 8)),
     BDEV_SB_NUM_MAX = 8,
     BCACHE_SB_VERSION_CDEV = 0,
     BCACHE_SB_VERSION_BDEV = 1,
     BCACHE_SB_VERSION_BDEV_WITH_OFFSET = 4,
     SB_IS_BDEV = (\<lambda>v. v = 1 \<or> v = 4),
     bcache_magic = 172040150086049686498615087787710580166,
     BDEV_STATE_DIRTY = 2,
     CACHE_MODE_WRITEBACK = 1,
     CACHE_MODE_WRITETHROUGH = 0,
     SET_BDEV_STATE = bitmask_set 61 2,
     SET_BDEV_CACHE_MODE = bitmask_set 0 4,
     SET_CACHE_DISCARD = bitmask_set 1 1,
     SET_CACHE_REPLACEMENT = bitmask_set 2 3,
     BDEV_STATE = bitmask_get 61 2,
     bucket_to_offset = (\<lambda>sb i. word_of_int i * ucast (bucket_size sb) * 512),
     csum_set = example_csum,
     sizeof_sb = 2256,
     sb_bytes = example_sb_bytes,
     bytes_sb = example_bytes_sb \<rparr>"

text \<open>Two properties of a layout: every struct takes \<open>sizeof_sb\<close> bytes, and the bytes of a
  struct read back as that struct.\<close>

definition layout_sized :: "bcache_h \<Rightarrow> bool" where
  "layout_sized H = (\<forall>sb. length (sb_bytes H sb) = sizeof_sb H)"

definition layout_faithful :: "bcache_h \<Rightarrow> bool" where
  "layout_faithful H = (\<forall>sb. bytes_sb H (sb_bytes H sb) = sb)"

text \<open>
  A backing device of 1 MiB whose copy 0 was formatted with write-back caching: cache
  mode 1 in the flags, data offset 24 sectors.
\<close>

definition example_backing_sb :: cache_sb where
  "example_backing_sb =
     zero_sb\<lparr> offset := 8, version := 4, magic := bcache_magic example_h,
              uuid := 1, set_uuid := 2, flags := 1, nbuckets := 24,
              block_size := 1, bucket_size := 1024 \<rparr>"

definition example_backing_dev :: device where
  "example_backing_dev =
     \<lparr> dev_size = 1048576,
       contents = blit (\<lambda>a. 0) 4096 (example_sb_bytes example_backing_sb),
       wlog = [],
       excl_open_ok = True,
       probe_setup_ok = True,
       blkid_do_probe = 1,
       logical_block_size = 512 \<rparr>"

text \<open>
  A backing device of 1 MiB whose copy 0 is a plain backing record: version
  \<open>BCACHE_SB_VERSION_BDEV\<close> and, in the \<open>data_offset\<close> member, the default data start of 16
  sectors.
\<close>

definition example_plain_sb :: cache_sb where
  "example_plain_sb =
     zero_sb\<lparr> offset := 8, version := 1, magic := bcache_magic example_h,
              uuid := 1, set_uuid := 2, nbuckets := 16,
              block_size := 1, bucket_size := 1024 \<rparr>"

definition example_plain_dev :: device where
  "example_plain_dev =
     \<lparr> dev_size = 1048576,
       contents = blit (\<lambda>a. 0) 4096 (example_sb_bytes example_plain_sb),
       wlog = [],
       excl_open_ok = True,
       probe_setup_ok = True,
       blkid_do_probe = 1,
       logical_block_size = 512 \<rparr>"

section \<open>The command line: main\<close>

text \<open>
  What \<open>getopt_long\<close> hands to the \<open>switch\<close> of \<open>main\<close>, in order: an option letter with
  its argument, one of the three long options that only store 1 through their flag
  pointer, a device argument (\<open>case 1\<close>), or any other return value, for which the
  \<open>switch\<close> has no case.
\<close>

datatype opt =
    Opt_A | Opt_S | Opt_C | Opt_B
  | Opt_b string | Opt_w string
  | Opt_writeback | Opt_wipe_bcache | Opt_discard
  | Opt_p string | Opt_o string | Opt_u string | Opt_v string
  | Opt_s string | Opt_r string
  | Opt_h
  | Opt_arg string
  | Opt_other

text \<open>The variables of \<open>main\<close>, with the two file-scope flags.\<close>

record main_vars =
  m_alcubierre_dev :: bool
  m_skip_udev_register :: bool
  m_dirty :: bool
  m_bdev :: int
  m_cache_devices :: "string list"
  m_backing_devices :: "string list"
  m_block_size :: "32 word"
  m_bucket_size :: "32 word"
  m_writeback :: bool
  m_discard :: bool
  m_wipe_bcache :: bool
  m_cache_replacement_policy :: "32 word"
  m_data_offset :: "64 word"
  m_set_uuid :: uuid_t
  m_bdev_uuid :: uuid_t
  m_sb_idx :: int
  m_sb_num :: int

text \<open>Lines 570-586: the initial values; the two UUIDs are the first two values that
  \<open>uuid_generate\<close> produces.\<close>

definition main_init :: "(nat \<Rightarrow> uuid_t) \<Rightarrow> main_vars" where
  "main_init gen =
     \<lparr> m_alcubierre_dev = False, m_skip_udev_register = False, m_dirty = False,
       m_bdev = - 1, m_cache_devices = [], m_backing_devices = [],
       m_block_size = 0, m_bucket_size = 1024,
       m_writeback = False, m_discard = False, m_wipe_bcache = False,
       m_cache_replacement_policy = 0, m_data_offset = - 1,
       m_set_uuid = gen 0, m_bdev_uuid = gen 1,
       m_sb_idx = - 1, m_sb_num = 1 \<rparr>"

text \<open>\<open>atoi\<close> and \<open>atoll\<close> of the C library, through \<open>strtoll\<close>.\<close>

definition atoi :: "string \<Rightarrow> int" where
  "atoi s = c_int (fst (strtoll s))"

definition atoll :: "string \<Rightarrow> int" where
  "atoll s = fst (strtoll s)"

definition strim :: "string \<Rightarrow> string" where
  "strim s = rev (dropWhile isspace (rev (dropWhile isspace s)))"

fun list_index :: "string list \<Rightarrow> string \<Rightarrow> nat \<Rightarrow> int" where
  "list_index [] s i = - 22"
| "list_index (x # xs) s i = (if x = s then int i else list_index xs s (Suc i))"

text \<open>\<open>read_string_list\<close>: the index of the trimmed string in the list, or \<open>-EINVAL\<close>.\<close>

definition read_string_list :: "string \<Rightarrow> string list \<Rightarrow> int" where
  "read_string_list buf lst = list_index lst (strim buf) 0"

definition cache_replacement_policies :: "string list" where
  "cache_replacement_policies = [''lru'', ''fifo'', ''random'']"

text \<open>One turn of the option loop, lines 613-693. \<open>uuid_parse\<close> of libuuid is an argument.\<close>

fun handle_opt ::
  "bcache_h \<Rightarrow> (string \<Rightarrow> uuid_t option) \<Rightarrow> main_vars \<Rightarrow> opt \<Rightarrow> failure + main_vars" where
  "handle_opt H parse st Opt_A =
     Inr (st\<lparr> m_alcubierre_dev := True, m_skip_udev_register := True \<rparr>)"
| "handle_opt H parse st Opt_S = Inr (st\<lparr> m_skip_udev_register := True \<rparr>)"
| "handle_opt H parse st Opt_C = Inr (st\<lparr> m_bdev := 0 \<rparr>)"
| "handle_opt H parse st Opt_B = Inr (st\<lparr> m_bdev := 1 \<rparr>)"
| "handle_opt H parse st (Opt_b a) =
     (case hatoi_validate a ''bucket size'' of
        Inl e \<Rightarrow> Inl e
      | Inr v \<Rightarrow> Inr (st\<lparr> m_bucket_size := v \<rparr>))"
| "handle_opt H parse st (Opt_w a) =
     (case hatoi_validate a ''block size'' of
        Inl e \<Rightarrow> Inl e
      | Inr v \<Rightarrow> Inr (st\<lparr> m_block_size := v \<rparr>))"
| "handle_opt H parse st Opt_writeback = Inr (st\<lparr> m_writeback := True \<rparr>)"
| "handle_opt H parse st Opt_wipe_bcache = Inr (st\<lparr> m_wipe_bcache := True \<rparr>)"
| "handle_opt H parse st Opt_discard = Inr (st\<lparr> m_discard := True \<rparr>)"
| "handle_opt H parse st (Opt_p a) =
     Inr (st\<lparr> m_cache_replacement_policy :=
                 word_of_int (read_string_list a cache_replacement_policies) \<rparr>)"
| "handle_opt H parse st (Opt_o a) = Inr (st\<lparr> m_data_offset := word_of_int (atoll a) \<rparr>)"
| "handle_opt H parse st (Opt_u a) =
     (case parse a of
        None \<Rightarrow> Inl Bad_uuid
      | Some u \<Rightarrow> Inr (st\<lparr> m_set_uuid := u \<rparr>))"
| "handle_opt H parse st (Opt_v a) =
     (case parse a of
        None \<Rightarrow> Inl Bad_uuid
      | Some u \<Rightarrow> Inr (st\<lparr> m_bdev_uuid := u, m_dirty := True \<rparr>))"
| "handle_opt H parse st (Opt_s a) =
     (if atoi a > BDEV_SB_NUM_MAX H then Inl Bad_sb_num
      else Inr (st\<lparr> m_sb_num := atoi a \<rparr>))"
| "handle_opt H parse st (Opt_r a) =
     (if atoi a < 0 \<or> atoi a \<ge> BDEV_SB_NUM_MAX H then Inl Bad_superblock_index
      else Inr (st\<lparr> m_sb_idx := atoi a \<rparr>))"
| "handle_opt H parse st Opt_h = Inl Usage"
| "handle_opt H parse st (Opt_arg a) =
     (if m_bdev st = - 1 then Inl Specify_C_or_B
      else if m_bdev st \<noteq> 0
      then Inr (st\<lparr> m_backing_devices := m_backing_devices st @ [a] \<rparr>)
      else Inr (st\<lparr> m_cache_devices := m_cache_devices st @ [a] \<rparr>))"
| "handle_opt H parse st Opt_other = Inr st"

fun parse_opts ::
  "bcache_h \<Rightarrow> (string \<Rightarrow> uuid_t option) \<Rightarrow> main_vars \<Rightarrow> opt list \<Rightarrow> failure + main_vars" where
  "parse_opts H parse st [] = Inr st"
| "parse_opts H parse st (x # xs) =
     (case handle_opt H parse st x of
        Inl e \<Rightarrow> Inl e
      | Inr st' \<Rightarrow> parse_opts H parse st' xs)"

text \<open>The devices of the machine, by path; a path that names nothing cannot be opened.\<close>

type_synonym world = "string \<Rightarrow> device option"

definition get_blocksize :: "world \<Rightarrow> string \<Rightarrow> failure + 32 word" where
  "get_blocksize w path =
     (case w path of
        None \<Rightarrow> Inl Stat_error
      | Some dev \<Rightarrow> Inr (logical_block_size dev div 512))"

text \<open>Lines 701-707: the largest block size among the devices, starting from \<open>bs\<close>.\<close>

fun max_blocksize :: "world \<Rightarrow> 32 word \<Rightarrow> string list \<Rightarrow> failure + 32 word" where
  "max_blocksize w bs [] = Inr bs"
| "max_blocksize w bs (p # ps) =
     (case get_blocksize w p of
        Inl e \<Rightarrow> Inl e
      | Inr b \<Rightarrow> max_blocksize w (max bs b) ps)"

text \<open>
  Lines 695-725: the checks between the option loop and the first device access. The
  result is the variables with \<open>block_size\<close> and \<open>data_offset\<close> settled.
\<close>

definition main_checks :: "bcache_h \<Rightarrow> world \<Rightarrow> main_vars \<Rightarrow> failure + main_vars" where
  "main_checks H w st =
     (if m_cache_devices st = [] \<and> m_backing_devices st = [] then Inl Usage
      else
        case (if m_block_size st = 0
              then (case max_blocksize w (m_block_size st) (m_cache_devices st) of
                      Inl e \<Rightarrow> Inl e
                    | Inr b \<Rightarrow> max_blocksize w b (m_backing_devices st))
              else Inr (m_block_size st)) of
          Inl e \<Rightarrow> Inl e
        | Inr b \<Rightarrow>
            if m_bucket_size st < b then Inl Bucket_smaller_than_block
            else if m_data_offset st = - 1
            then Inr (st\<lparr> m_block_size := b,
                          m_data_offset := BDEV_DATA_OFFSET H (m_sb_num st) \<rparr>)
            else if m_data_offset st < BDEV_DATA_OFFSET H (m_sb_num st)
            then Inl Bad_data_offset
            else Inr (st\<lparr> m_block_size := b \<rparr>))"

text \<open>A call of \<open>write_sb\<close> from \<open>main\<close>, lines 738-749, on the device that the path names.\<close>

definition main_write_sb ::
  "bcache_h \<Rightarrow> (nat \<Rightarrow> uuid_t) \<Rightarrow> main_vars \<Rightarrow> bool \<Rightarrow> int \<Rightarrow> device \<Rightarrow> nat
     \<Rightarrow> (failure option \<times> device \<times> nat) option" where
  "main_write_sb H gen st bdev sb_num dev k =
     write_sb H gen (m_alcubierre_dev st) (m_skip_udev_register st) dev
       (m_block_size st) (m_bucket_size st) (m_writeback st) (m_discard st) (m_wipe_bcache st)
       (m_cache_replacement_policy st) (m_data_offset st) (m_set_uuid st) bdev
       (m_bdev_uuid st) (m_dirty st) sb_num k"

fun format_devices ::
  "bcache_h \<Rightarrow> (nat \<Rightarrow> uuid_t) \<Rightarrow> main_vars \<Rightarrow> bool \<Rightarrow> int \<Rightarrow> string list \<Rightarrow> world \<Rightarrow> nat
     \<Rightarrow> (failure option \<times> world \<times> nat) option" where
  "format_devices H gen st bdev sb_num [] w k = Some (None, w, k)"
| "format_devices H gen st bdev sb_num (p # ps) w k =
     (case w p of
        None \<Rightarrow> Some (Some Cant_open_dev, w, k)
      | Some dev \<Rightarrow>
          (case main_write_sb H gen st bdev sb_num dev k of
             None \<Rightarrow> None
           | Some (Some e, dev', k') \<Rightarrow> Some (Some e, w(p \<mapsto> dev'), k')
           | Some (None, dev', k') \<Rightarrow>
               format_devices H gen st bdev sb_num ps (w(p \<mapsto> dev')) k'))"

text \<open>
  \<open>main\<close>: the options, the checks, then either the reset of one backing device or the
  two format loops. The result carries the devices as the run leaves them.
\<close>

definition main ::
  "bcache_h \<Rightarrow> (nat \<Rightarrow> uuid_t) \<Rightarrow> (string \<Rightarrow> uuid_t option) \<Rightarrow> opt list \<Rightarrow> world
     \<Rightarrow> (failure option \<times> world \<times> nat) option" where
  "main H gen parse opts w =
     (case parse_opts H parse (main_init gen) opts of
        Inl e \<Rightarrow> Some (Some e, w, 2)
      | Inr st0 \<Rightarrow>
          case main_checks H w st0 of
            Inl e \<Rightarrow> Some (Some e, w, 2)
          | Inr st \<Rightarrow>
              if m_sb_idx st \<ge> 0
              then (if length (m_backing_devices st) \<noteq> 1
                    then Some (Some Only_one_backing_device, w, 2)
                    else case w (hd (m_backing_devices st)) of
                           None \<Rightarrow> Some (Some Cant_open_dev, w, 2)
                         | Some dev \<Rightarrow>
                             (case reset_backing_sb H dev (m_wipe_bcache st) (m_sb_idx st)
                                     (m_set_uuid st) (m_bdev_uuid st) of
                                (r, dev') \<Rightarrow>
                                  Some (r, w(hd (m_backing_devices st) \<mapsto> dev'), 2)))
              else
                case format_devices H gen st False 1 (m_cache_devices st) w 2 of
                  None \<Rightarrow> None
                | Some (Some e, w', k) \<Rightarrow> Some (Some e, w', k)
                | Some (None, w', k) \<Rightarrow>
                    format_devices H gen st True (m_sb_num st) (m_backing_devices st) w' k)"

text \<open>An environment for the examples: a sequence of generated UUIDs, a UUID parser that
  knows one string, a blank device of 1 MiB, and a machine with that device.\<close>

definition example_gen :: "nat \<Rightarrow> uuid_t" where
  "example_gen n = word_of_nat n + 1000"

definition example_uuid_parse :: "string \<Rightarrow> uuid_t option" where
  "example_uuid_parse s = (if s = ''00000000-0000-0000-0000-00000000002a'' then Some 42 else None)"

definition example_blank_dev :: device where
  "example_blank_dev =
     \<lparr> dev_size = 1048576,
       contents = (\<lambda>a. 0),
       wlog = [],
       excl_open_ok = True,
       probe_setup_ok = True,
       blkid_do_probe = 1,
       logical_block_size = 512 \<rparr>"

definition example_world :: world where
  "example_world = (\<lambda>p. if p = ''/dev/sdb'' then Some example_blank_dev else None)"

text \<open>
  The struct as the loop over the secondary copies leaves it after \<open>j\<close> turns, starting
  from the struct \<open>sb\<close> of the primary copy with \<open>k\<close> UUIDs generated so far: turn \<open>j\<close>
  stamps two fresh UUIDs and recomputes the checksum.
\<close>

fun copy_sb :: "bcache_h \<Rightarrow> (nat \<Rightarrow> uuid_t) \<Rightarrow> cache_sb \<Rightarrow> nat \<Rightarrow> nat \<Rightarrow> cache_sb" where
  "copy_sb H gen sb k 0 = sb"
| "copy_sb H gen sb k (Suc j) =
     (let s1 = (copy_sb H gen sb k j)\<lparr> offset := word_of_int (SB_SECTOR H),
                 uuid := gen (k + 2 * j), set_uuid := gen (k + 2 * j + 1) \<rparr>
      in s1\<lparr> csum := csum_set H s1 \<rparr>)"

text \<open>The writes that precede the primary record: the zeroed header and the optional tag.\<close>

definition header_log :: "bcache_h \<Rightarrow> bool \<Rightarrow> bool \<Rightarrow> (nat \<times> byte list) list" where
  "header_log H alcubierre_dev skip_udev_register =
     (0, replicate (SB_START H) 0) #
     (if alcubierre_dev then [(0, ascii_bytes ''alcubierre'')]
      else if skip_udev_register then [(0, ascii_bytes ''##skipudev'')]
      else [])"

text \<open>The byte offset at which copy \<open>j\<close> of a backing device is written by \<open>write_sb\<close>.\<close>

definition copy_offset :: "bcache_h \<Rightarrow> nat \<Rightarrow> nat" where
  "copy_offset H j = (if j = 0 then SB_START H else nat (SB_OFFSET H (int j)))"

text \<open>What the header must say of the two backing versions and of the cache version.\<close>

definition versions_ok :: "bcache_h \<Rightarrow> bool" where
  "versions_ok H =
     (SB_IS_BDEV H (BCACHE_SB_VERSION_BDEV H)
      \<and> SB_IS_BDEV H (BCACHE_SB_VERSION_BDEV_WITH_OFFSET H)
      \<and> \<not> SB_IS_BDEV H (BCACHE_SB_VERSION_CDEV H))"

text \<open>What the header must say of the state field of the flags: setting it to
  \<open>BDEV_STATE_DIRTY\<close> reads back as that, setting the cache mode leaves it alone, and it
  is zero in a zeroed flags word.\<close>

definition bdev_state_ok :: "bcache_h \<Rightarrow> bool" where
  "bdev_state_ok H =
     ((\<forall>fl. BDEV_STATE H (SET_BDEV_STATE H (BDEV_STATE_DIRTY H) fl) = BDEV_STATE_DIRTY H)
      \<and> (\<forall>fl. BDEV_STATE H (SET_BDEV_CACHE_MODE H (CACHE_MODE_WRITEBACK H) fl)
                = BDEV_STATE H fl)
      \<and> (\<forall>fl. BDEV_STATE H (SET_BDEV_CACHE_MODE H (CACHE_MODE_WRITETHROUGH H) fl)
                = BDEV_STATE H fl)
      \<and> BDEV_STATE H 0 = 0)"

text \<open>The variables of \<open>main\<close> after the options \<open>-B -v 00000000-0000-0000-0000-00000000002a /dev/sdb\<close>.\<close>

definition example_vars_v :: main_vars where
  "example_vars_v = (main_init example_gen)\<lparr> m_bdev := 1, m_bdev_uuid := 42, m_dirty := True,
      m_backing_devices := [''/dev/sdb''] \<rparr>"

text \<open>
  What the header must say of \<open>bucket_to_offset\<close> for the journal of a cache device to lie
  beyond its primary record: with \<open>first_bucket = 23 / bucket_size + 1\<close>, no bucket from
  \<open>first_bucket\<close> on starts before the end of the record at \<open>SB_START\<close>.
\<close>

definition journal_clear_of_sb :: "bcache_h \<Rightarrow> bool" where
  "journal_clear_of_sb H =
     (\<forall>sb i. bucket_size sb \<noteq> 0
            \<and> first_bucket sb = word_of_int (23 div uint (bucket_size sb) + 1)
            \<and> uint (first_bucket sb) \<le> i \<and> i < 2 ^ 31
        \<longrightarrow> SB_START H + sizeof_sb H \<le> unat (bucket_to_offset H sb i))"

text \<open>The variables of \<open>main\<close> after the options \<open>-C -b 4k /dev/sdb\<close>.\<close>

definition example_vars_c :: main_vars where
  "example_vars_c = (main_init example_gen)\<lparr> m_bdev := 0, m_bucket_size := 8,
      m_cache_devices := [''/dev/sdb''] \<rparr>"

text \<open>What the header must say of \<open>SB_OFFSET\<close> for the secondary copies to lie clear of the
  primary record at \<open>SB_START\<close>.\<close>

definition copies_clear_of_sb :: "bcache_h \<Rightarrow> bool" where
  "copies_clear_of_sb H =
     (\<forall>j. 1 \<le> j \<and> 0 \<le> SB_OFFSET H j
        \<longrightarrow> SB_START H + sizeof_sb H \<le> nat (SB_OFFSET H j)
            \<or> nat (SB_OFFSET H j) + sizeof_sb H \<le> SB_START H)"

text \<open>
  \<open>uuid_generate\<close> belongs to libuuid, outside the repository; \<open>gen i\<close> is the value its
  call number \<open>i\<close> returns. Its contract, for the calls numbered \<open>k\<close> to \<open>k' - 1\<close>: no two
  of them return the same identifier, and none returns an identifier of \<open>used\<close>, the
  identifiers already in use.
\<close>

definition uuid_generate_fresh :: "(nat \<Rightarrow> uuid_t) \<Rightarrow> nat \<Rightarrow> nat \<Rightarrow> uuid_t set \<Rightarrow> bool" where
  "uuid_generate_fresh gen k k' used =
     (inj_on gen {k ..< k'} \<and> (\<forall>i \<in> {k ..< k'}. gen i \<notin> used))"

text \<open>The identifiers of the primary record of a device.\<close>

definition primary_ids :: "bcache_h \<Rightarrow> device \<Rightarrow> uuid_t \<times> uuid_t" where
  "primary_ids H dev =
     (set_uuid (sb_at H dev (int (SB_START H))), uuid (sb_at H dev (int (SB_START H))))"

text \<open>A machine with two blank devices, and the variables of \<open>main\<close> after the options
  \<open>-C -b 4k /dev/sdb -B /dev/sdc\<close>.\<close>

definition example_world2 :: world where
  "example_world2 =
     (\<lambda>p. if p = ''/dev/sdb'' \<or> p = ''/dev/sdc'' then Some example_blank_dev else None)"

definition example_vars_cb :: main_vars where
  "example_vars_cb = (main_init example_gen)\<lparr> m_bdev := 1, m_bucket_size := 8,
      m_cache_devices := [''/dev/sdb''], m_backing_devices := [''/dev/sdc''] \<rparr>"

section \<open>Properties of the topology resolver\<close>

lemma get_parent_device_sda1:
  assumes "path_exists ''/sys/block/sda/sda1/''"
  shows "get_parent_device path_exists True ''sda1'' device_buf
           = Some (3, ''sda'' @ replicate 97 NUL)"
proof -
  let ?ex = "\<lambda>p. if p = ''/sys/block/sda/sda1/'' then True else path_exists p"
  have "path_exists = ?ex"
    using assms by auto
  moreover have "get_parent_device ?ex True ''sda1'' device_buf
      = Some (3, ''sda'' @ replicate 97 NUL)"
    by code_simp
  ultimately show ?thesis by simp
qed

lemma get_parent_device_nvme0n1p1:
  assumes "\<not> path_exists ''/sys/block/nvme0n1p/nvme0n1p1/''"
    and "path_exists ''/sys/block/nvme0n1/nvme0n1p1/''"
  shows "get_parent_device path_exists True ''nvme0n1p1'' device_buf
           = Some (7, ''nvme0n1'' @ replicate 93 NUL)"
proof -
  let ?ex = "\<lambda>p. if p = ''/sys/block/nvme0n1p/nvme0n1p1/'' then False
                  else if p = ''/sys/block/nvme0n1/nvme0n1p1/'' then True else path_exists p"
  have "path_exists = ?ex"
    using assms by auto
  moreover have "get_parent_device ?ex True ''nvme0n1p1'' device_buf
      = Some (7, ''nvme0n1'' @ replicate 93 NUL)"
    by code_simp
  ultimately show ?thesis by simp
qed

text \<open>The first test has priority: when the digit-stripped candidate exists, it is the parent.\<close>

lemma get_parent_device_nvme0n1p1_first_stage:
  assumes "path_exists ''/sys/block/nvme0n1p/nvme0n1p1/''"
  shows "get_parent_device path_exists True ''nvme0n1p1'' device_buf
           = Some (8, ''nvme0n1p'' @ replicate 92 NUL)"
proof -
  let ?ex = "\<lambda>p. if p = ''/sys/block/nvme0n1p/nvme0n1p1/'' then True else path_exists p"
  have "path_exists = ?ex"
    using assms by auto
  moreover have "get_parent_device ?ex True ''nvme0n1p1'' device_buf
      = Some (8, ''nvme0n1p'' @ replicate 92 NUL)"
    by code_simp
  ultimately show ?thesis by simp
qed

lemma get_parent_device_sda:
  "get_parent_device path_exists alloc_ok ''sda'' base = Some (0, base)"
  by code_simp

lemma c_str_prefix: "NUL \<notin> set s \<Longrightarrow> c_str (s @ replicate n NUL) = s"
  by (induction s) (auto simp: c_str_def)

lemma c_str_sda: "c_str (''sda'' @ replicate 97 NUL) = ''sda''"
  by (rule c_str_prefix) (simp add: NUL_def)

lemma c_str_nvme0n1: "c_str (''nvme0n1'' @ replicate 93 NUL) = ''nvme0n1''"
  by (rule c_str_prefix) (simp add: NUL_def)

text \<open>
  C8. With \<open>/sys/block/sda/sda1/\<close> and \<open>/sys/block/nvme0n1/nvme0n1p1/\<close> present and
  \<open>/sys/block/nvme0n1p/nvme0n1p1/\<close> absent, \<open>get_parent_device\<close> returns 3 with \<open>sda\<close> in
  the buffer for \<open>sda1\<close> and 7 with \<open>nvme0n1\<close> in the buffer for \<open>nvme0n1p1\<close> (the first
  candidate \<open>nvme0n1p\<close> is tested and fails, then the p-stripped one is found). For
  \<open>sda\<close> it returns 0 and leaves the buffer alone, whatever paths exist.
\<close>

theorem C8_get_parent_device_examples:
  assumes "path_exists ''/sys/block/sda/sda1/''"
    and "path_exists ''/sys/block/nvme0n1/nvme0n1p1/''"
    and "\<not> path_exists ''/sys/block/nvme0n1p/nvme0n1p1/''"
  shows "map_option (\<lambda>(ret, base). (ret, c_str base))
           (get_parent_device path_exists True ''sda1'' device_buf) = Some (3, ''sda'')
       \<and> map_option (\<lambda>(ret, base). (ret, c_str base))
           (get_parent_device path_exists True ''nvme0n1p1'' device_buf) = Some (7, ''nvme0n1'')
       \<and> (\<forall>any_exists alloc_ok base.
             get_parent_device any_exists alloc_ok ''sda'' base = Some (0, base))"
proof -
  have "map_option (\<lambda>(ret, base). (ret, c_str base))
          (get_parent_device path_exists True ''sda1'' device_buf) = Some (3, ''sda'')"
    by (simp only: get_parent_device_sda1 [of path_exists, OF assms(1)] option.map prod.case c_str_sda)
  moreover have "map_option (\<lambda>(ret, base). (ret, c_str base))
          (get_parent_device path_exists True ''nvme0n1p1'' device_buf) = Some (7, ''nvme0n1'')"
    by (simp only: get_parent_device_nvme0n1p1 [of path_exists, OF assms(3) assms(2)] option.map prod.case
        c_str_nvme0n1)
  ultimately show ?thesis
    by (simp add: get_parent_device_sda)
qed

theorem C8_get_parent_device_examples_witness:
  "map_option (\<lambda>(ret, base). (ret, c_str base))
     (get_parent_device sysfs_example True ''sda1'' device_buf) = Some (3, ''sda'')
   \<and> map_option (\<lambda>(ret, base). (ret, c_str base))
     (get_parent_device sysfs_example True ''nvme0n1p1'' device_buf) = Some (7, ''nvme0n1'')
   \<and> get_parent_device sysfs_example False ''sda'' device_buf = Some (0, device_buf)"
  using C8_get_parent_device_examples [of sysfs_example]
  by (simp add: sysfs_example_def)

section \<open>Properties of the size arguments\<close>

text \<open>The bit test of \<open>hatoi_validate\<close>: \<open>n AND (n - 1)\<close> vanishes exactly on powers of two.\<close>

lemma and_pred_nat:
  fixes n :: nat
  assumes "0 < n"
  shows "(n AND (n - 1) = 0) \<longleftrightarrow> (\<exists>k. n = 2 ^ k)"
  using assms
proof (induction n rule: less_induct)
  case (less n)
  show ?case
  proof (cases "even n")
    case True
    then obtain m where m: "n = 2 * m" by (auto elim: evenE)
    with less.prems have mpos: "0 < m" by simp
    have pred: "n - 1 = 2 * (m - 1) + 1" using m mpos by simp
    have "n AND (n - 1) = 2 * (m AND (m - 1))"
      unfolding pred unfolding m
      by (simp add: and_nat_rec [of "2 * m"] )
    moreover have "(m AND (m - 1) = 0) \<longleftrightarrow> (\<exists>k. m = 2 ^ k)"
      using less.IH [of m] m mpos by simp
    moreover have "(\<exists>k. m = 2 ^ k) \<longleftrightarrow> (\<exists>k. n = 2 ^ k)"
    proof
      assume "\<exists>k. m = 2 ^ k"
      then obtain k where "m = 2 ^ k" ..
      then have "n = 2 ^ Suc k" using m by simp
      then show "\<exists>k. n = 2 ^ k" ..
    next
      assume "\<exists>k. n = 2 ^ k"
      then obtain k where k: "n = 2 ^ k" ..
      with True less.prems have "k \<noteq> 0" by (cases k) auto
      then obtain j where "k = Suc j" by (cases k) auto
      with k m have "m = 2 ^ j" by simp
      then show "\<exists>k. m = 2 ^ k" ..
    qed
    ultimately show ?thesis by simp
  next
    case False
    then obtain m where m: "n = 2 * m + 1" by (auto elim: oddE)
    have "n AND (n - 1) = 2 * m"
      unfolding m by (simp add: and_nat_rec [of "Suc (2 * m)" "2 * m"])
    moreover have "(m = 0) \<longleftrightarrow> (\<exists>k. n = 2 ^ k)"
    proof
      assume "m = 0"
      then have "n = 2 ^ 0" using m by simp
      then show "\<exists>k. n = 2 ^ k" ..
    next
      assume "\<exists>k. n = 2 ^ k"
      then obtain k where k: "n = 2 ^ k" ..
      with False have "k = 0" by (cases k) auto
      with k m show "m = 0" by simp
    qed
    ultimately show ?thesis by simp
  qed
qed

lemma word_pow2_test:
  fixes v :: "64 word"
  assumes "v \<noteq> 0"
  shows "(v AND (v - 1) = 0) \<longleftrightarrow> (\<exists>k. unat v = 2 ^ k)"
proof -
  have "unat (v AND (v - 1)) = unat v AND (unat v - 1)"
    using assms by (simp add: unsigned_and_eq unat_minus_one)
  moreover have "0 < unat v"
    using assms by (simp add: unat_gt_0)
  ultimately show ?thesis
    using and_pred_nat [of "unat v"] by (metis unat_eq_0)
qed

lemma digits_val_append:
  assumes "\<forall>c\<in>set ds. isdigit c" and "rest = [] \<or> \<not> isdigit (hd rest)"
  shows "digits_val (ds @ rest) acc
           = (foldl (\<lambda>a c. 10 * a + ((of_char c :: int) - 48)) acc ds, rest)"
  using assms
proof (induction ds arbitrary: acc)
  case Nil
  then show ?case by (cases rest) auto
next
  case (Cons d ds)
  then show ?case by simp
qed

lemma digit_not_space: "isdigit c \<Longrightarrow> \<not> isspace c"
  by (auto simp: isdigit_def isspace_def)

lemma digit_not_sign: "isdigit c \<Longrightarrow> c \<noteq> CHR ''-'' \<and> c \<noteq> CHR ''+''"
  by (auto simp: isdigit_def)

lemma digit_value_nonneg: "isdigit c \<Longrightarrow> 0 \<le> (of_char c :: int) - 48"
proof -
  assume "isdigit c"
  then have "48 \<le> (of_char c :: nat)" by (simp add: isdigit_def)
  then have "int 48 \<le> int (of_char c)" by (rule iffD2 [OF of_nat_le_iff])
  then show ?thesis by (simp add: of_char_def)
qed

lemma foldl_digits_nonneg:
  "\<forall>c\<in>set ds. isdigit c \<Longrightarrow> 0 \<le> acc
     \<Longrightarrow> acc \<le> foldl (\<lambda>a c. 10 * a + ((of_char c :: int) - 48)) acc ds"
proof (induction ds arbitrary: acc)
  case Nil
  then show ?case by simp
next
  case (Cons d ds)
  have "isdigit d"
    using Cons.prems(1) by simp
  then have "0 \<le> (of_char d :: int) - 48"
    by (rule digit_value_nonneg)
  then have step: "acc \<le> 10 * acc + ((of_char d :: int) - 48)"
    using Cons.prems(2) by simp
  then have "10 * acc + ((of_char d :: int) - 48)
      \<le> foldl (\<lambda>a c. 10 * a + ((of_char c :: int) - 48)) (10 * acc + ((of_char d :: int) - 48)) ds"
    using Cons.IH Cons.prems by simp
  with step show ?case by simp
qed

lemma dec_val_nonneg: "\<forall>c\<in>set ds. isdigit c \<Longrightarrow> 0 \<le> dec_val ds"
  unfolding dec_val_def using foldl_digits_nonneg [of ds 0] by simp

lemma strtoll_digits:
  assumes "ds \<noteq> []" and "\<forall>c\<in>set ds. isdigit c" and "rest = [] \<or> \<not> isdigit (hd rest)"
    and "dec_val ds < 2 ^ 63"
  shows "strtoll (ds @ rest) = (dec_val ds, rest)"
proof -
  obtain d ds' where ds: "ds = d # ds'" using assms(1) by (cases ds) auto
  have d: "isdigit d" using assms(2) ds by simp
  have "dropWhile isspace (ds @ rest) = ds @ rest"
    using d ds by (simp add: digit_not_space)
  moreover have "digits_val (ds @ rest) 0 = (dec_val ds, rest)"
    using digits_val_append [OF assms(2,3)] by (simp add: dec_val_def)
  moreover have "max LLONG_MIN (min LLONG_MAX (dec_val ds)) = dec_val ds"
    using assms(4) dec_val_nonneg [OF assms(2)] by (simp add: LLONG_MIN_def LLONG_MAX_def)
  ultimately show ?thesis
    using d digit_not_sign [OF d]
    by (simp add: strtoll_def ds Let_def)
qed

lemma times_1024_eq: "times_1024 n i = i * 1024 ^ n"
  by (induction n arbitrary: i) (simp_all add: mult.assoc)

text \<open>The factor of the specification is the factor that the fall-through \<open>switch\<close> applies.\<close>

lemma suffix_factor_level: "suffix_factor rest = 1024 ^ suffix_level rest"
  by (simp add: suffix_factor_def suffix_level_def split: list.splits)

lemma hatoi_digits:
  assumes "ds \<noteq> []" and "\<forall>c\<in>set ds. isdigit c" and "rest = [] \<or> \<not> isdigit (hd rest)"
    and "dec_val ds < 2 ^ 63"
  shows "hatoi (ds @ rest) = word_of_int (denoted_bytes ds rest)"
  by (simp add: hatoi_def strtoll_digits [OF assms] times_1024_eq denoted_bytes_def
      suffix_factor_level)

text \<open>
  \<open>hatoi_validate\<close> on a digit string with an optional suffix whose value fits a
  \<open>long long\<close>: the outcome as a function of the denoted byte count.
\<close>

lemma hatoi_validate_digits:
  assumes "ds \<noteq> []" and "\<forall>c\<in>set ds. isdigit c" and "rest = [] \<or> \<not> isdigit (hd rest)"
    and b: "b = denoted_bytes ds rest" and "b < 2 ^ 63"
  shows "hatoi_validate (ds @ rest) msg =
     (if b \<noteq> 0 \<and> \<not> (\<exists>k. b = 2 ^ k) then Inl (Must_be_power_of_two msg)
      else if 65535 < b div 512 then Inl (Too_large msg)
      else if b div 512 = 0 then Inl (Too_small msg)
      else Inr (word_of_int (b div 512)))"
proof -
  have nn: "0 \<le> dec_val ds" by (rule dec_val_nonneg [OF assms(2)])
  have pw: "(1::int) \<le> 1024 ^ suffix_level rest" by simp
  have "dec_val ds * 1 \<le> dec_val ds * 1024 ^ suffix_level rest"
    by (rule mult_left_mono [OF pw nn])
  then have "dec_val ds \<le> b"
    unfolding b denoted_bytes_def suffix_factor_level by simp
  then have small: "dec_val ds < 2 ^ 63" using assms(5) by simp
  have bnn: "0 \<le> b" using nn unfolding b denoted_bytes_def suffix_factor_level by simp
  define n where "n = nat b"
  have bn: "b = int n" using bnn by (simp add: n_def)
  define v :: "64 word" where "v = hatoi (ds @ rest)"
  have v: "v = word_of_nat n"
    unfolding v_def hatoi_digits [OF assms(1,2,3) small] b [symmetric] bn by simp
  have "n < 2 ^ 63" using assms(5) bn by simp
  then have ub: "unat v = n"
    unfolding v by (simp add: unat_of_nat)
  have pow: "(\<exists>k. b = 2 ^ k) \<longleftrightarrow> (\<exists>k. n = 2 ^ k)"
  proof -
    have "b = 2 ^ k \<longleftrightarrow> n = 2 ^ k" for k
    proof -
      have "int n = int (2 ^ k) \<longleftrightarrow> n = 2 ^ k" by (rule of_nat_eq_iff)
      then show ?thesis unfolding bn by simp
    qed
    then show ?thesis by simp
  qed
  have test: "v AND (v - 1) \<noteq> 0 \<longleftrightarrow> b \<noteq> 0 \<and> \<not> (\<exists>k. b = 2 ^ k)"
  proof (cases "v = 0")
    case True
    then show ?thesis using ub bn by auto
  next
    case False
    then show ?thesis using word_pow2_test [OF False] ub bn pow by (auto simp: unat_eq_0)
  qed
  have bdiv: "b div 512 = int (n div 512)"
    unfolding bn by (simp add: zdiv_int)
  have udiv: "unat (v div 512) = n div 512"
    using ub by (simp add: unat_div)
  have large: "v div 512 > USHRT_MAX \<longleftrightarrow> 65535 < b div 512"
    using udiv bdiv by (simp add: USHRT_MAX_def word_less_nat_alt)
  have zero: "v div 512 = 0 \<longleftrightarrow> b div 512 = 0"
    using udiv bdiv by (metis unat_eq_0 of_nat_eq_0_iff)
  have cast: "(ucast (v div 512) :: 32 word) = word_of_int (b div 512)"
  proof -
    have "(ucast (v div 512) :: 32 word) = word_of_nat (unat (v div 512))"
      by simp
    then show ?thesis using udiv bdiv by simp
  qed
  show ?thesis
    unfolding hatoi_validate_def v_def [symmetric] Let_def
    using test large zero cast by auto
qed

text \<open>
  Where no multiplication in \<open>hatoi\<close> leaves the range of \<open>long long\<close>, the code does what
  the specification asks. For a size argument made of decimal digits and an optional
  suffix, denoting \<open>b\<close> bytes with \<open>b\<close> below \<open>2 ^ 63\<close>: \<open>hatoi_validate\<close> returns
  \<open>b div 512\<close> exactly when \<open>b\<close> is a power of two with between 1 and 65535 sectors, and
  exits with failure when \<open>b\<close> is not a power of two (zero included) or its sector count
  is zero or above 65535.
\<close>

lemma hatoi_validate_in_range:
  assumes "ds \<noteq> []" and "\<forall>c\<in>set ds. isdigit c" and "rest = [] \<or> \<not> isdigit (hd rest)"
    and "b = denoted_bytes ds rest" and "b < 2 ^ 63"
  shows "(hatoi_validate (ds @ rest) msg = Inr (word_of_int (b div 512))
            \<longleftrightarrow> (\<exists>k. b = 2 ^ k) \<and> 1 \<le> b div 512 \<and> b div 512 \<le> 65535)
       \<and> (\<not> (\<exists>k. b = 2 ^ k) \<or> b div 512 = 0 \<or> 65535 < b div 512
            \<longrightarrow> isl (hatoi_validate (ds @ rest) msg))"
proof -
  have "(0::int) = 2 ^ k \<longleftrightarrow> False" for k by simp
  moreover have "0 \<le> b div 512"
  proof -
    have "0 \<le> dec_val ds * 1024 ^ suffix_level rest"
      using dec_val_nonneg [OF assms(2)] by simp
    then show ?thesis
      unfolding assms(4) denoted_bytes_def suffix_factor_level
      by (simp add: pos_imp_zdiv_nonneg_iff)
  qed
  ultimately show ?thesis
    unfolding hatoi_validate_digits [OF assms] by auto
qed

lemma hatoi_validate_in_range_example:
  "hatoi_validate (''4'' @ ''k'') ''bucket size'' = Inr (word_of_int (4096 div 512))"
proof -
  have d: "denoted_bytes ''4'' ''k'' = 4096" by code_simp
  have h1: "''4'' \<noteq> []" by simp
  have h2: "\<forall>c\<in>set ''4''. isdigit c" by code_simp
  have h3: "''k'' = [] \<or> \<not> isdigit (hd ''k'')" by code_simp
  have h5: "(4096::int) < 2 ^ 63" by simp
  have p: "\<exists>k. (4096::int) = 2 ^ k" by (rule exI [of _ 12]) simp
  show ?thesis
    using hatoi_validate_in_range [OF h1 h2 h3 d [symmetric] h5, of "''bucket size''"] p
    by simp
qed

text \<open>
  C7, where the code departs from it. The argument \<open>18014398509481985k\<close> denotes
  \<open>18014398509481985 * 1024 = 2 ^ 64 + 1024\<close> bytes: strictly between two consecutive
  powers of two, so not a power of two, and far more than 65535 sectors. \<open>strtoll\<close>
  returns \<open>18014398509481985\<close>; the multiplication by 1024 overflows the \<open>long long\<close>
  and leaves 1024; the power-of-two test and the \<open>too large\<close> test of \<open>hatoi_validate\<close>
  both pass on that remainder, and the argument is accepted as 2 sectors.
\<close>

theorem C7_hatoi_validate_overflow_accepted:
  "denoted_bytes ''18014398509481985'' ''k'' = 2 ^ 64 + 1024
   \<and> 2 ^ 64 < denoted_bytes ''18014398509481985'' ''k''
   \<and> denoted_bytes ''18014398509481985'' ''k'' < 2 ^ 65
   \<and> 65535 < denoted_bytes ''18014398509481985'' ''k'' div 512
   \<and> strtoll ''18014398509481985k'' = (18014398509481985, ''k'')
   \<and> hatoi ''18014398509481985k'' = 1024
   \<and> hatoi_validate ''18014398509481985k'' ''bucket size'' = Inr 2"
  by code_simp

section \<open>Reading and writing devices\<close>

lemma length_read_bytes [simp]: "length (read_bytes f off n) = n"
  by (simp add: read_bytes_def)

lemma read_bytes_nth: "i < n \<Longrightarrow> read_bytes f off n ! i = f (off + i)"
  by (simp add: read_bytes_def)

lemma blit_outside: "\<not> (off \<le> a \<and> a < off + length bs) \<Longrightarrow> blit f off bs a = f a"
  by (auto simp: blit_def)

lemma read_bytes_blit_same:
  assumes "length bs = n"
  shows "read_bytes (blit f off bs) off n = bs"
proof (rule nth_equalityI)
  show "length (read_bytes (blit f off bs) off n) = length bs"
    using assms by simp
next
  fix i
  assume "i < length (read_bytes (blit f off bs) off n)"
  then have "i < n" by simp
  then show "read_bytes (blit f off bs) off n ! i = bs ! i"
    using assms by (simp add: read_bytes_nth blit_def)
qed

lemma read_bytes_blit_disjoint:
  assumes "off' + n \<le> off \<or> off + length bs \<le> off'"
  shows "read_bytes (blit f off bs) off' n = read_bytes f off' n"
proof (rule nth_equalityI)
  show "length (read_bytes (blit f off bs) off' n) = length (read_bytes f off' n)"
    by simp
next
  fix i
  assume "i < length (read_bytes (blit f off bs) off' n)"
  then have "i < n" by simp
  then show "read_bytes (blit f off bs) off' n ! i = read_bytes f off' n ! i"
    using assms by (auto simp: read_bytes_nth blit_def)
qed

lemma pread_Some:
  "pread dev n off = Some bs \<Longrightarrow> bs = read_bytes (contents dev) (nat off) n"
  by (auto simp: pread_def split: if_splits)

lemma pwrite_Some:
  assumes "pwrite dev bs off = Some dev'"
  shows "dev' = dev\<lparr> contents := blit (contents dev) (nat off) bs,
                      wlog := wlog dev @ [(nat off, bs)] \<rparr>"
    and "0 \<le> off" and "nat off + length bs \<le> dev_size dev"
  using assms by (auto simp: pwrite_def split: if_splits)

lemma pwrite_fits:
  assumes "0 \<le> off" and "nat off + length bs \<le> dev_size dev"
  shows "pwrite dev bs off = Some (dev\<lparr> contents := blit (contents dev) (nat off) bs,
                                         wlog := wlog dev @ [(nat off, bs)] \<rparr>)"
  using assms by (simp add: pwrite_def)

lemma pwrite_size: "pwrite dev bs off = Some dev' \<Longrightarrow> dev_size dev' = dev_size dev"
  by (auto simp: pwrite_def split: if_splits)

section \<open>The example header satisfies the layout properties\<close>

lemma length_le_bytes [simp]: "length (le_bytes n v) = n"
  by (induction n arbitrary: v) simp_all

lemma le_val_le_bytes: "le_val (le_bytes n v) = v mod 256 ^ n"
proof (induction n arbitrary: v)
  case 0
  then show ?case by simp
next
  case (Suc n)
  have "unat (word_of_nat (v mod 256) :: byte) = v mod 256"
    by (simp add: unat_of_nat)
  then show ?case
    using Suc.IH [of "v div 256"] by (simp add: mod_mult2_eq)
qed

lemma word_le_roundtrip:
  fixes w :: "'a::len word"
  assumes "LENGTH('a) = 8 * n"
  shows "word_of_nat (le_val (le_bytes n (unat w))) = w"
proof -
  have "(256::nat) ^ n = 2 ^ LENGTH('a)"
    using assms by (simp add: power_mult)
  moreover have "unat w < 2 ^ LENGTH('a)" by (rule unsigned_less)
  ultimately show ?thesis
    by (simp add: le_val_le_bytes)
qed

lemma length_example_sb_bytes: "length (example_sb_bytes sb) = 2256"
  by (simp add: example_sb_bytes_def)

lemma example_roundtrip: "example_bytes_sb (example_sb_bytes sb) = sb"
  by (simp add: example_sb_bytes_def example_bytes_sb_def word_le_roundtrip)

lemma example_h_simps:
  "sizeof_sb example_h = 2256" "SB_OFFSET example_h i = 4096 * (i + 1)"
  "sb_bytes example_h = example_sb_bytes" "bytes_sb example_h = example_bytes_sb"
  "SB_START example_h = 4096" "SB_SECTOR example_h = 8"
  "BDEV_DATA_START_DEFAULT example_h = 16"
  "SB_IS_BDEV example_h v = (v = 1 \<or> v = 4)"
  "BCACHE_SB_VERSION_CDEV example_h = 0"
  "BCACHE_SB_VERSION_BDEV example_h = 1"
  "BCACHE_SB_VERSION_BDEV_WITH_OFFSET example_h = 4"
  "csum_set example_h = example_csum"
  by (simp_all add: example_h_def)

lemma example_layout_sized: "layout_sized example_h"
  by (simp add: layout_sized_def example_h_simps length_example_sb_bytes)

lemma example_layout_faithful: "layout_faithful example_h"
  by (simp add: layout_faithful_def example_h_simps example_roundtrip)

lemma example_backing_dev_copy0:
  "sb_at example_h example_backing_dev (SB_OFFSET example_h 0) = example_backing_sb"
  by (simp add: sb_at_def example_h_simps example_backing_dev_def
      read_bytes_blit_same length_example_sb_bytes example_roundtrip)

lemma example_pread_copy0:
  "pread example_backing_dev (sizeof_sb example_h) (SB_OFFSET example_h 0)
     = Some (example_sb_bytes example_backing_sb)"
  by (simp add: pread_def example_h_simps example_backing_dev_def
      read_bytes_blit_same length_example_sb_bytes)

lemma example_reset_sb:
  "reset_sb example_h example_backing_sb 9 7 =
     example_backing_sb\<lparr> uuid := 7, set_uuid := 9, flags := 0 \<rparr>"
  by (simp add: reset_sb_def example_backing_sb_def example_h_simps data_offset_def zero_sb_def)

lemma example_reset_returns:
  "fst (reset_backing_sb example_h example_backing_dev True 0 9 7) = None"
  by (simp add: reset_backing_sb_def example_pread_copy0 example_h_simps(3-)
      example_roundtrip example_reset_sb Let_def)
    (simp add: example_backing_sb_def data_offset_def pwrite_def example_h_simps
      length_example_sb_bytes example_backing_dev_def example_h_def)

text \<open>The plain backing record of \<open>example_plain_dev\<close>.\<close>

lemma example_plain_dev_copy0:
  "sb_at example_h example_plain_dev (SB_OFFSET example_h 0) = example_plain_sb"
  by (simp add: sb_at_def example_h_simps example_plain_dev_def
      read_bytes_blit_same length_example_sb_bytes example_roundtrip)

lemma example_pread_plain:
  "pread example_plain_dev (sizeof_sb example_h) (SB_OFFSET example_h 0)
     = Some (example_sb_bytes example_plain_sb)"
  by (simp add: pread_def example_h_simps example_plain_dev_def
      read_bytes_blit_same length_example_sb_bytes)

text \<open>The bit-field accessors of the example header.\<close>

lemma bitmask_get_set_same:
  assumes "off + sz \<le> 64" and "v AND mask sz = v"
  shows "bitmask_get off sz (bitmask_set off sz v fl) = v"
proof (rule bit_word_eqI)
  fix n assume n: "n < LENGTH(64)"
  have v: "bit v n \<longleftrightarrow> bit v n \<and> n < sz"
    using assms(2) by (metis bit_and_iff bit_mask_iff)
  show "bit (bitmask_get off sz (bitmask_set off sz v fl)) n \<longleftrightarrow> bit v n"
    using assms(1) n v
    by (auto simp: bitmask_get_def bitmask_set_def bit_simps)
qed

lemma bitmask_get_set_other:
  assumes "off' + sz' \<le> off" and "v AND mask sz' = v"
  shows "bitmask_get off sz (bitmask_set off' sz' v fl) = bitmask_get off sz fl"
proof (rule bit_word_eqI)
  fix n assume n: "n < LENGTH(64)"
  have v: "bit v m \<longleftrightarrow> bit v m \<and> m < sz'" for m
    using assms(2) by (metis bit_and_iff bit_mask_iff)
  show "bit (bitmask_get off sz (bitmask_set off' sz' v fl)) n
          \<longleftrightarrow> bit (bitmask_get off sz fl) n"
    using assms(1) n v [of "off + n - off'"] bit_imp_le_length [of fl "off + n"]
    by (auto simp: bitmask_get_def bitmask_set_def bit_simps)
qed

lemma example_bdev_state_ok: "bdev_state_ok example_h"
proof -
  have a: "bitmask_get 61 2 (bitmask_set 61 2 2 fl) = 2" for fl
    by (rule bitmask_get_set_same) (simp_all add: mask_eq_exp_minus_1)
  have b: "bitmask_get 61 2 (bitmask_set 0 4 1 fl) = bitmask_get 61 2 fl" for fl
    by (rule bitmask_get_set_other) (simp_all add: mask_eq_exp_minus_1)
  have c: "bitmask_get 61 2 (bitmask_set 0 4 0 fl) = bitmask_get 61 2 fl" for fl
    by (rule bitmask_get_set_other) (simp_all add: mask_eq_exp_minus_1)
  have d: "bitmask_get 61 2 0 = 0"
    by (simp add: bitmask_get_def)
  show ?thesis
    by (simp add: bdev_state_ok_def example_h_def a b c d)
qed

section \<open>Properties of the reset path\<close>

lemma reset_fails_untouched:
  assumes "magic (sb_at H dev (SB_OFFSET H sb_idx)) \<noteq> bcache_magic H
         \<or> uuid (sb_at H dev (SB_OFFSET H sb_idx)) = bdev_uuid
         \<or> set_uuid (sb_at H dev (SB_OFFSET H sb_idx)) = set_uuid_arg"
  shows "\<exists>e. reset_backing_sb H dev wipe_bcache sb_idx set_uuid_arg bdev_uuid = (Some e, dev)"
proof (cases "pread dev (sizeof_sb H) (SB_OFFSET H sb_idx)")
  case None
  then show ?thesis by (simp add: reset_backing_sb_def)
next
  case (Some bs)
  then have "bytes_sb H bs = sb_at H dev (SB_OFFSET H sb_idx)"
    using pread_Some [of dev "sizeof_sb H" "SB_OFFSET H sb_idx" bs] by (simp add: sb_at_def)
  with Some assms show ?thesis
    by (auto simp: reset_backing_sb_def Let_def)
qed

lemma reset_returns:
  assumes "reset_backing_sb H dev wipe_bcache sb_idx set_uuid_arg bdev_uuid = (None, dev')"
  shows "\<exists>sb. sb = reset_sb H (sb_at H dev (SB_OFFSET H sb_idx)) set_uuid_arg bdev_uuid
      \<and> pwrite dev (sb_bytes H (sb\<lparr> csum := csum_set H sb \<rparr>)) (SB_OFFSET H sb_idx) = Some dev'
      \<and> data_offset sb = data_offset (sb_at H dev (SB_OFFSET H sb_idx))
      \<and> magic (sb_at H dev (SB_OFFSET H sb_idx)) = bcache_magic H
      \<and> SB_IS_BDEV H (version (sb_at H dev (SB_OFFSET H sb_idx)))
      \<and> wipe_bcache"
proof (cases "pread dev (sizeof_sb H) (SB_OFFSET H sb_idx)")
  case None
  with assms show ?thesis by (simp add: reset_backing_sb_def split: if_splits)
next
  case (Some bs)
  then have "bytes_sb H bs = sb_at H dev (SB_OFFSET H sb_idx)"
    using pread_Some [of dev "sizeof_sb H" "SB_OFFSET H sb_idx" bs] by (simp add: sb_at_def)
  with Some assms show ?thesis
    by (auto simp: reset_backing_sb_def Let_def split: if_splits option.splits)
qed

lemma reset_result:
  assumes "reset_backing_sb H dev wipe_bcache sb_idx set_uuid_arg bdev_uuid = (None, dev')"
  defines "old \<equiv> sb_at H dev (SB_OFFSET H sb_idx)"
  defines "new \<equiv> reset_sb H old set_uuid_arg bdev_uuid"
  shows "dev' = dev\<lparr> contents := blit (contents dev) (nat (SB_OFFSET H sb_idx))
                                   (sb_bytes H (new\<lparr> csum := csum_set H new \<rparr>)),
                      wlog := wlog dev @ [(nat (SB_OFFSET H sb_idx),
                                           sb_bytes H (new\<lparr> csum := csum_set H new \<rparr>))] \<rparr>"
    and "data_offset new = data_offset old"
    and "0 \<le> SB_OFFSET H sb_idx"
proof -
  from reset_returns [OF assms(1)]
  have w: "pwrite dev (sb_bytes H (new\<lparr> csum := csum_set H new \<rparr>)) (SB_OFFSET H sb_idx) = Some dev'"
    and d: "data_offset new = data_offset old"
    by (simp_all add: old_def new_def)
  show "data_offset new = data_offset old" by (rule d)
  show "dev' = dev\<lparr> contents := blit (contents dev) (nat (SB_OFFSET H sb_idx))
                                   (sb_bytes H (new\<lparr> csum := csum_set H new \<rparr>)),
                      wlog := wlog dev @ [(nat (SB_OFFSET H sb_idx),
                                           sb_bytes H (new\<lparr> csum := csum_set H new \<rparr>))] \<rparr>"
    by (rule pwrite_Some(1) [OF w])
  show "0 \<le> SB_OFFSET H sb_idx"
    by (rule pwrite_Some(2) [OF w])
qed

lemma reset_sb_fields:
  "block_size (reset_sb H old su bu) = block_size old"
  "bucket_size (reset_sb H old su bu) = bucket_size old"
  "uuid (reset_sb H old su bu) = bu"
  "set_uuid (reset_sb H old su bu) = su"
  "magic (reset_sb H old su bu) = bcache_magic H"
  "offset (reset_sb H old su bu) = word_of_int (SB_SECTOR H)"
  "flags (reset_sb H old su bu) = 0"
  "version (reset_sb H old su bu) =
     (if data_offset old \<noteq> word_of_int (BDEV_DATA_START_DEFAULT H)
      then BCACHE_SB_VERSION_BDEV_WITH_OFFSET H else BCACHE_SB_VERSION_BDEV H)"
  by (simp_all add: reset_sb_def zero_sb_def Let_def)

lemma example_reset_pair:
  "reset_backing_sb example_h example_backing_dev True 0 9 7
     = (None, snd (reset_backing_sb example_h example_backing_dev True 0 9 7))"
  using example_reset_returns by (simp add: prod_eq_iff)

lemma reset_readback:
  assumes "layout_sized H" and "layout_faithful H"
    and "reset_backing_sb H dev wipe_bcache sb_idx set_uuid_arg bdev_uuid = (None, dev')"
  shows "sb_at H dev' (SB_OFFSET H sb_idx) =
           (reset_sb H (sb_at H dev (SB_OFFSET H sb_idx)) set_uuid_arg bdev_uuid)
             \<lparr> csum := csum_set H
                 (reset_sb H (sb_at H dev (SB_OFFSET H sb_idx)) set_uuid_arg bdev_uuid) \<rparr>"
proof -
  have len: "length (sb_bytes H sb) = sizeof_sb H" for sb
    using assms(1) by (simp add: layout_sized_def)
  have rt: "bytes_sb H (sb_bytes H sb) = sb" for sb
    using assms(2) by (simp add: layout_faithful_def)
  show ?thesis
    by (subst reset_result(1) [OF assms(3)])
      (simp add: sb_at_def read_bytes_blit_same len rt)
qed

text \<open>
  C3. When the record at the targeted copy index does not carry the bcache magic, or the
  new device UUID equals that record's device UUID, or the new set UUID equals its set
  UUID, \<open>reset_backing_sb\<close> exits with failure and the device is as it was: same contents
  and no \<open>pwrite\<close> logged.
\<close>

theorem C3_reset_rejected:
  assumes "magic (sb_at H dev (SB_OFFSET H sb_idx)) \<noteq> bcache_magic H
         \<or> uuid (sb_at H dev (SB_OFFSET H sb_idx)) = bdev_uuid
         \<or> set_uuid (sb_at H dev (SB_OFFSET H sb_idx)) = set_uuid_arg"
  shows "\<exists>e. reset_backing_sb H dev wipe_bcache sb_idx set_uuid_arg bdev_uuid = (Some e, dev)"
  using assms by (rule reset_fails_untouched)

theorem C3_reset_rejected_witness:
  "\<exists>e. reset_backing_sb example_h example_backing_dev True 0 9 1 = (Some e, example_backing_dev)"
  using C3_reset_rejected [of example_h example_backing_dev 0 1 9 True]
  by (simp add: example_backing_dev_copy0) (simp add: example_backing_sb_def)

text \<open>
  The check of line 498. A record whose \<open>data_offset\<close> equals \<open>BDEV_DATA_START_DEFAULT\<close> is
  rebuilt as the plain backing variant, with the \<open>data_offset\<close> member left at the zero of
  \<open>memset\<close>; with a non-zero default the rebuilt member then differs from the one saved,
  and the reset exits (\<open>data_offset must use ...\<close>) before its \<open>pwrite\<close>.
\<close>

lemma reset_default_offset_rejected:
  assumes "data_offset (sb_at H dev (SB_OFFSET H sb_idx)) = word_of_int (BDEV_DATA_START_DEFAULT H)"
    and "(word_of_int (BDEV_DATA_START_DEFAULT H) :: 64 word) \<noteq> 0"
  shows "\<exists>e. reset_backing_sb H dev wipe_bcache sb_idx set_uuid_arg bdev_uuid = (Some e, dev)"
proof (cases "pread dev (sizeof_sb H) (SB_OFFSET H sb_idx)")
  case None
  then show ?thesis by (simp add: reset_backing_sb_def)
next
  case (Some bs)
  then have "bytes_sb H bs = sb_at H dev (SB_OFFSET H sb_idx)"
    using pread_Some [of dev "sizeof_sb H" "SB_OFFSET H sb_idx" bs] by (simp add: sb_at_def)
  with Some assms show ?thesis
    by (auto simp: reset_backing_sb_def reset_sb_def Let_def data_offset_def zero_sb_def)
qed

lemma reset_default_offset_must_use:
  assumes "data_offset (sb_at H dev (SB_OFFSET H sb_idx)) = word_of_int (BDEV_DATA_START_DEFAULT H)"
    and "(word_of_int (BDEV_DATA_START_DEFAULT H) :: 64 word) \<noteq> 0"
    and "excl_open_ok dev"
    and "pread dev (sizeof_sb H) (SB_OFFSET H sb_idx) \<noteq> None"
    and "magic (sb_at H dev (SB_OFFSET H sb_idx)) = bcache_magic H"
    and "wipe_bcache"
    and "SB_IS_BDEV H (version (sb_at H dev (SB_OFFSET H sb_idx)))"
    and "uuid (sb_at H dev (SB_OFFSET H sb_idx)) \<noteq> bdev_uuid"
    and "set_uuid (sb_at H dev (SB_OFFSET H sb_idx)) \<noteq> set_uuid_arg"
  shows "reset_backing_sb H dev wipe_bcache sb_idx set_uuid_arg bdev_uuid
           = (Some Data_offset_must_use, dev)"
proof -
  from assms(4) obtain bs where p: "pread dev (sizeof_sb H) (SB_OFFSET H sb_idx) = Some bs"
    by blast
  then have "bytes_sb H bs = sb_at H dev (SB_OFFSET H sb_idx)"
    using pread_Some [of dev "sizeof_sb H" "SB_OFFSET H sb_idx" bs] by (simp add: sb_at_def)
  with p assms show ?thesis
    by (simp add: reset_backing_sb_def reset_sb_def Let_def data_offset_def zero_sb_def)
qed

lemma example_reset_plain:
  "reset_backing_sb example_h example_plain_dev True 0 9 7
     = (Some Data_offset_must_use, example_plain_dev)"
  by (rule reset_default_offset_must_use)
    (simp_all add: example_plain_dev_copy0 example_pread_plain,
     simp_all add: example_plain_sb_def data_offset_def example_h_simps example_plain_dev_def)

text \<open>
  C2, as it fails. Copy 0 of \<open>example_plain_dev\<close> is a backing record with the magic, of
  the plain variant, whose \<open>data_offset\<close> is the default data start; the new identifiers
  differ from its own. The claim has the reset write back a record of the plain variant
  with that \<open>data_offset\<close>. The reset exits with \<open>data_offset must use ...\<close> and writes
  nothing.
\<close>

theorem C2_reset_plain_variant_counterexample:
  "magic (sb_at example_h example_plain_dev (SB_OFFSET example_h 0)) = bcache_magic example_h
   \<and> SB_IS_BDEV example_h (version (sb_at example_h example_plain_dev (SB_OFFSET example_h 0)))
   \<and> data_offset (sb_at example_h example_plain_dev (SB_OFFSET example_h 0))
       = word_of_int (BDEV_DATA_START_DEFAULT example_h)
   \<and> uuid (sb_at example_h example_plain_dev (SB_OFFSET example_h 0)) \<noteq> 7
   \<and> set_uuid (sb_at example_h example_plain_dev (SB_OFFSET example_h 0)) \<noteq> 9
   \<and> reset_backing_sb example_h example_plain_dev True 0 9 7
       = (Some Data_offset_must_use, example_plain_dev)
   \<and> wlog example_plain_dev = []"
  by (simp add: example_plain_dev_copy0 example_reset_plain)
    (simp add: example_plain_sb_def data_offset_def example_h_simps example_plain_dev_def)

text \<open>
  C2, amended. \<open>BDEV_DATA_START_DEFAULT\<close> is not zero. When \<open>reset_backing_sb\<close> returns,
  the one record it wrote, at the offset of the targeted copy, has the \<open>block_size\<close>,
  \<open>bucket_size\<close> and \<open>data_offset\<close> of the record read there before; that \<open>data_offset\<close>
  differs from \<open>BDEV_DATA_START_DEFAULT\<close> and the version written is
  \<open>BCACHE_SB_VERSION_BDEV_WITH_OFFSET\<close>. When the \<open>data_offset\<close> read is the default, the
  reset exits with failure and the device is as it was, and when the record passes every
  earlier check the failure is the one of line 498: no record of the plain variant is
  ever written.
\<close>

theorem C2_reset_preserves_geometry:
  assumes "(word_of_int (BDEV_DATA_START_DEFAULT H) :: 64 word) \<noteq> 0"
  shows "(reset_backing_sb H dev wipe_bcache sb_idx set_uuid_arg bdev_uuid = (None, dev')
          \<longrightarrow> data_offset (sb_at H dev (SB_OFFSET H sb_idx))
                \<noteq> word_of_int (BDEV_DATA_START_DEFAULT H)
            \<and> (\<exists>sb. wlog dev' = wlog dev @ [(nat (SB_OFFSET H sb_idx), sb_bytes H sb)]
                \<and> block_size sb = block_size (sb_at H dev (SB_OFFSET H sb_idx))
                \<and> bucket_size sb = bucket_size (sb_at H dev (SB_OFFSET H sb_idx))
                \<and> data_offset sb = data_offset (sb_at H dev (SB_OFFSET H sb_idx))
                \<and> version sb = BCACHE_SB_VERSION_BDEV_WITH_OFFSET H))
       \<and> (data_offset (sb_at H dev (SB_OFFSET H sb_idx))
             = word_of_int (BDEV_DATA_START_DEFAULT H)
          \<longrightarrow> (\<exists>e. reset_backing_sb H dev wipe_bcache sb_idx set_uuid_arg bdev_uuid
                     = (Some e, dev))
            \<and> (excl_open_ok dev
                \<and> pread dev (sizeof_sb H) (SB_OFFSET H sb_idx) \<noteq> None
                \<and> magic (sb_at H dev (SB_OFFSET H sb_idx)) = bcache_magic H
                \<and> wipe_bcache
                \<and> SB_IS_BDEV H (version (sb_at H dev (SB_OFFSET H sb_idx)))
                \<and> uuid (sb_at H dev (SB_OFFSET H sb_idx)) \<noteq> bdev_uuid
                \<and> set_uuid (sb_at H dev (SB_OFFSET H sb_idx)) \<noteq> set_uuid_arg
              \<longrightarrow> reset_backing_sb H dev wipe_bcache sb_idx set_uuid_arg bdev_uuid
                    = (Some Data_offset_must_use, dev)))"
proof (intro conjI impI)
  define old where "old = sb_at H dev (SB_OFFSET H sb_idx)"
  assume r: "reset_backing_sb H dev wipe_bcache sb_idx set_uuid_arg bdev_uuid = (None, dev')"
  define new where "new = reset_sb H old set_uuid_arg bdev_uuid"
  define sb where "sb = new\<lparr> csum := csum_set H new \<rparr>"
  show ne: "data_offset (sb_at H dev (SB_OFFSET H sb_idx))
              \<noteq> word_of_int (BDEV_DATA_START_DEFAULT H)"
  proof
    assume "data_offset (sb_at H dev (SB_OFFSET H sb_idx))
              = word_of_int (BDEV_DATA_START_DEFAULT H)"
    from reset_default_offset_rejected [OF this assms]
    obtain e where "reset_backing_sb H dev wipe_bcache sb_idx set_uuid_arg bdev_uuid = (Some e, dev)"
      by blast
    with r show False by simp
  qed
  have "wlog dev' = wlog dev @ [(nat (SB_OFFSET H sb_idx), sb_bytes H sb)]"
    unfolding sb_def new_def old_def by (subst reset_result(1) [OF r]) simp
  moreover have "data_offset sb = data_offset old"
    using reset_result(2) [OF r] by (simp add: sb_def new_def old_def data_offset_def)
  moreover have "block_size sb = block_size old" "bucket_size sb = bucket_size old"
    "version sb = BCACHE_SB_VERSION_BDEV_WITH_OFFSET H"
    using ne by (simp_all add: sb_def new_def reset_sb_fields old_def)
  ultimately show "\<exists>sb. wlog dev' = wlog dev @ [(nat (SB_OFFSET H sb_idx), sb_bytes H sb)]
                \<and> block_size sb = block_size (sb_at H dev (SB_OFFSET H sb_idx))
                \<and> bucket_size sb = bucket_size (sb_at H dev (SB_OFFSET H sb_idx))
                \<and> data_offset sb = data_offset (sb_at H dev (SB_OFFSET H sb_idx))
                \<and> version sb = BCACHE_SB_VERSION_BDEV_WITH_OFFSET H"
    unfolding old_def by blast
next
  assume d: "data_offset (sb_at H dev (SB_OFFSET H sb_idx))
             = word_of_int (BDEV_DATA_START_DEFAULT H)"
  show "\<exists>e. reset_backing_sb H dev wipe_bcache sb_idx set_uuid_arg bdev_uuid = (Some e, dev)"
    by (rule reset_default_offset_rejected [OF d assms])
next
  assume d: "data_offset (sb_at H dev (SB_OFFSET H sb_idx))
             = word_of_int (BDEV_DATA_START_DEFAULT H)"
    and c: "excl_open_ok dev
                \<and> pread dev (sizeof_sb H) (SB_OFFSET H sb_idx) \<noteq> None
                \<and> magic (sb_at H dev (SB_OFFSET H sb_idx)) = bcache_magic H
                \<and> wipe_bcache
                \<and> SB_IS_BDEV H (version (sb_at H dev (SB_OFFSET H sb_idx)))
                \<and> uuid (sb_at H dev (SB_OFFSET H sb_idx)) \<noteq> bdev_uuid
                \<and> set_uuid (sb_at H dev (SB_OFFSET H sb_idx)) \<noteq> set_uuid_arg"
  show "reset_backing_sb H dev wipe_bcache sb_idx set_uuid_arg bdev_uuid
                    = (Some Data_offset_must_use, dev)"
    by (rule reset_default_offset_must_use [OF d assms]) (use c in simp_all)
qed

theorem C2_reset_preserves_geometry_witness:
  "(\<exists>sb. wlog (snd (reset_backing_sb example_h example_backing_dev True 0 9 7))
           = [(4096, sb_bytes example_h sb)]
      \<and> block_size sb = 1 \<and> bucket_size sb = 1024 \<and> data_offset sb = 24 \<and> version sb = 4)
   \<and> reset_backing_sb example_h example_plain_dev True 0 9 7
       = (Some Data_offset_must_use, example_plain_dev)"
proof -
  have z: "(word_of_int (BDEV_DATA_START_DEFAULT example_h) :: 64 word) \<noteq> 0"
    by (simp add: example_h_simps)
  have a: "\<exists>sb. wlog (snd (reset_backing_sb example_h example_backing_dev True 0 9 7))
           = [(4096, sb_bytes example_h sb)]
      \<and> block_size sb = 1 \<and> bucket_size sb = 1024 \<and> data_offset sb = 24 \<and> version sb = 4"
    using C2_reset_preserves_geometry [OF z, THEN conjunct1, THEN mp, OF example_reset_pair]
    by (simp add: example_backing_dev_copy0)
     (simp add: example_backing_sb_def data_offset_def example_h_simps example_backing_dev_def)
  have b: "reset_backing_sb example_h example_plain_dev True 0 9 7
       = (Some Data_offset_must_use, example_plain_dev)"
    using C2_reset_preserves_geometry [OF z, where dev = example_plain_dev and sb_idx = 0 and wipe_bcache = True
        and set_uuid_arg = 9 and bdev_uuid = 7, THEN conjunct2]
    by (simp add: example_plain_dev_copy0 example_pread_plain)
      (simp add: example_plain_sb_def data_offset_def example_h_simps example_plain_dev_def)
  show ?thesis using a b by simp
qed

text \<open>
  C1, as it fails. A copy formatted with write-back caching has cache mode 1 in its flags;
  after a reset that succeeds the flags of that copy are 0. The reset changes more than
  the identifiers and the checksum.
\<close>

theorem C1_reset_only_fields_counterexample:
  "fst (reset_backing_sb example_h example_backing_dev True 0 9 7) = None
   \<and> flags (sb_at example_h example_backing_dev (SB_OFFSET example_h 0)) = 1
   \<and> flags (sb_at example_h (snd (reset_backing_sb example_h example_backing_dev True 0 9 7))
              (SB_OFFSET example_h 0)) = 0"
proof -
  have "flags (sb_at example_h (snd (reset_backing_sb example_h example_backing_dev True 0 9 7))
              (SB_OFFSET example_h 0)) = 0"
    by (subst reset_readback [OF example_layout_sized example_layout_faithful example_reset_pair])
      (simp add: reset_sb_fields)
  moreover have "flags (sb_at example_h example_backing_dev (SB_OFFSET example_h 0)) = 1"
    by (simp add: example_backing_dev_copy0 example_backing_sb_def)
  ultimately show ?thesis
    using example_reset_returns by simp
qed

text \<open>
  C1, amended. A reset that succeeds writes only the \<open>sizeof_sb\<close> bytes of the targeted
  copy: the size of the device and every byte outside that extent are unchanged, so
  every copy whose extent does not overlap it reads byte for byte as before. The
  targeted copy becomes a struct rebuilt from zero: the new identifiers, the old
  \<open>block_size\<close>, \<open>bucket_size\<close> and \<open>data_offset\<close>, the magic, \<open>offset = SB_SECTOR\<close>, the
  version chosen from \<open>data_offset\<close>, a fresh checksum, and zero in every other member.
\<close>

theorem C1_reset_frame:
  assumes "layout_sized H" and "layout_faithful H"
    and "reset_backing_sb H dev wipe_bcache sb_idx set_uuid_arg bdev_uuid = (None, dev')"
  shows "dev_size dev' = dev_size dev
     \<and> (\<forall>a. \<not> (nat (SB_OFFSET H sb_idx) \<le> a \<and> a < nat (SB_OFFSET H sb_idx) + sizeof_sb H)
            \<longrightarrow> contents dev' a = contents dev a)
     \<and> (\<forall>j. 0 \<le> SB_OFFSET H j
              \<and> (SB_OFFSET H j + int (sizeof_sb H) \<le> SB_OFFSET H sb_idx
                  \<or> SB_OFFSET H sb_idx + int (sizeof_sb H) \<le> SB_OFFSET H j)
            \<longrightarrow> read_bytes (contents dev') (nat (SB_OFFSET H j)) (sizeof_sb H)
                  = read_bytes (contents dev) (nat (SB_OFFSET H j)) (sizeof_sb H))
     \<and> (let old = sb_at H dev (SB_OFFSET H sb_idx);
             new = zero_sb\<lparr> offset := word_of_int (SB_SECTOR H),
                     version := (if data_offset old \<noteq> word_of_int (BDEV_DATA_START_DEFAULT H)
                                 then BCACHE_SB_VERSION_BDEV_WITH_OFFSET H
                                 else BCACHE_SB_VERSION_BDEV H),
                     magic := bcache_magic H,
                     uuid := bdev_uuid,
                     set_uuid := set_uuid_arg,
                     nbuckets := data_offset old,
                     block_size := block_size old,
                     bucket_size := bucket_size old \<rparr>
         in sb_at H dev' (SB_OFFSET H sb_idx) = new\<lparr> csum := csum_set H new \<rparr>)"
proof -
  define old where "old = sb_at H dev (SB_OFFSET H sb_idx)"
  define new where "new = reset_sb H old set_uuid_arg bdev_uuid"
  define bs where "bs = sb_bytes H (new\<lparr> csum := csum_set H new \<rparr>)"
  have len: "length bs = sizeof_sb H"
    using assms(1) by (simp add: layout_sized_def bs_def)
  have dev': "dev' = dev\<lparr> contents := blit (contents dev) (nat (SB_OFFSET H sb_idx)) bs,
                      wlog := wlog dev @ [(nat (SB_OFFSET H sb_idx), bs)] \<rparr>"
    unfolding bs_def new_def old_def by (rule reset_result(1) [OF assms(3)])
  have nonneg: "0 \<le> SB_OFFSET H sb_idx"
    by (rule reset_result(3) [OF assms(3)])
  have size: "dev_size dev' = dev_size dev"
    by (simp add: dev')
  have frame: "contents dev' a = contents dev a"
    if "\<not> (nat (SB_OFFSET H sb_idx) \<le> a \<and> a < nat (SB_OFFSET H sb_idx) + sizeof_sb H)" for a
    using that by (simp add: dev' blit_outside len)
  have copies: "read_bytes (contents dev') (nat (SB_OFFSET H j)) (sizeof_sb H)
                  = read_bytes (contents dev) (nat (SB_OFFSET H j)) (sizeof_sb H)"
    if "0 \<le> SB_OFFSET H j"
      and "SB_OFFSET H j + int (sizeof_sb H) \<le> SB_OFFSET H sb_idx
           \<or> SB_OFFSET H sb_idx + int (sizeof_sb H) \<le> SB_OFFSET H j" for j
  proof -
    have "nat (SB_OFFSET H j) + sizeof_sb H \<le> nat (SB_OFFSET H sb_idx)
        \<or> nat (SB_OFFSET H sb_idx) + length bs \<le> nat (SB_OFFSET H j)"
      using that nonneg len by linarith
    then show ?thesis
      by (simp add: dev' read_bytes_blit_disjoint)
  qed
  have d: "data_offset new = data_offset old"
    unfolding new_def old_def by (rule reset_result(2) [OF assms(3)])
  have "new = zero_sb\<lparr> offset := word_of_int (SB_SECTOR H),
                     version := (if data_offset old \<noteq> word_of_int (BDEV_DATA_START_DEFAULT H)
                                 then BCACHE_SB_VERSION_BDEV_WITH_OFFSET H
                                 else BCACHE_SB_VERSION_BDEV H),
                     magic := bcache_magic H,
                     uuid := bdev_uuid,
                     set_uuid := set_uuid_arg,
                     nbuckets := data_offset old,
                     block_size := block_size old,
                     bucket_size := bucket_size old \<rparr>"
    using d by (auto simp: new_def reset_sb_def Let_def data_offset_def zero_sb_def)
  moreover have "sb_at H dev' (SB_OFFSET H sb_idx) = new\<lparr> csum := csum_set H new \<rparr>"
    unfolding new_def old_def by (rule reset_readback [OF assms])
  ultimately show ?thesis
    using size frame copies unfolding old_def Let_def by simp
qed

theorem C1_reset_frame_witness:
  "uuid (sb_at example_h (snd (reset_backing_sb example_h example_backing_dev True 0 9 7))
           (SB_OFFSET example_h 0)) = 7
   \<and> read_bytes (contents (snd (reset_backing_sb example_h example_backing_dev True 0 9 7)))
        (nat (SB_OFFSET example_h 1)) (sizeof_sb example_h)
      = read_bytes (contents example_backing_dev)
          (nat (SB_OFFSET example_h 1)) (sizeof_sb example_h)"
proof -
  note t = C1_reset_frame [OF example_layout_sized example_layout_faithful example_reset_pair]
  have a: "uuid (sb_at example_h (snd (reset_backing_sb example_h example_backing_dev True 0 9 7))
           (SB_OFFSET example_h 0)) = 7"
    using t by (simp add: Let_def example_h_simps)
  have b: "read_bytes (contents (snd (reset_backing_sb example_h example_backing_dev True 0 9 7)))
        (nat (SB_OFFSET example_h 1)) (sizeof_sb example_h)
      = read_bytes (contents example_backing_dev)
          (nat (SB_OFFSET example_h 1)) (sizeof_sb example_h)"
    using t [THEN conjunct2, THEN conjunct2, THEN conjunct1, THEN spec, of 1]
    by (simp add: example_h_simps)
  show ?thesis using a b by simp
qed

section \<open>Properties of the format path\<close>

lemma sb_backing_too_small:
  assumes "data_offset_arg < required_data_offset H sb_num"
  shows "sb_backing H (sb_init H bdev su bu bs bks) writeback dirty data_offset_arg sb_num
           = Inl Data_offset_too_small"
proof -
  have "unat data_offset_arg < unat (required_data_offset H sb_num)"
    using assms by (simp add: word_less_nat_alt)
  then have "unat (0 :: 64 word) < unat (required_data_offset H sb_num)"
    by simp
  then have "(0 :: 64 word) < required_data_offset H sb_num"
    by (simp only: word_less_nat_alt)
  then show ?thesis
    using assms
    by (simp add: sb_backing_def sb_init_def zero_sb_def data_offset_def Let_def)
qed

lemma write_sb_too_small:
  assumes "SB_IS_BDEV H (BCACHE_SB_VERSION_BDEV H)"
    and "data_offset_arg < required_data_offset H sb_num"
  shows "\<exists>e. write_sb H gen alc skip dev bs bks writeback discard wipe_bcache pol
               data_offset_arg su True bu dirty sb_num k = Some (Some e, dev, k)"
proof -
  have v: "version (sb_init H True su bu bs bks) = BCACHE_SB_VERSION_BDEV H"
    by (simp add: sb_init_def)
  have "build_sb H dev bs bks writeback discard pol data_offset_arg su True bu dirty sb_num
          = Inl Data_offset_too_small"
    by (simp add: build_sb_def Let_def v assms(1) sb_backing_too_small [OF assms(2)])
  then show ?thesis
    by (simp add: write_sb_def split: option.split)
qed

lemma main_checks_bad_offset:
  assumes "m_data_offset st0 < BDEV_DATA_OFFSET H (m_sb_num st0)"
  shows "\<exists>e. main_checks H w st0 = Inl e"
proof -
  have "m_data_offset st0 \<noteq> - 1"
  proof
    assume "m_data_offset st0 = - 1"
    then have "BDEV_DATA_OFFSET H (m_sb_num st0) \<le> m_data_offset st0"
      by simp
    with assms show False by simp
  qed
  then show ?thesis
    using assms by (auto simp: main_checks_def split: sum.splits)
qed

lemma atoll_20: "atoll ''20'' = 20"
  by code_simp

lemma required_example: "required_data_offset example_h 1 = 24"
  by (simp add: required_data_offset_def example_h_simps c_int_def)

text \<open>
  C5. A data offset below what the copies need is rejected before any write, at both
  places where the tool checks it. In \<open>main\<close>: when the \<open>data_offset\<close> left by the options
  is below \<open>BDEV_DATA_OFFSET(sb_num)\<close>, the run exits with failure and every device is as
  it was. In \<open>write_sb\<close> for a backing device: when the offset passed in is below
  \<open>BDEV_DATA_START_DEFAULT + sb_num * SB_SECTOR\<close>, the call exits with failure and the
  device is as it was, contents and write log.
\<close>

theorem C5_small_data_offset_rejected:
  assumes "SB_IS_BDEV H (BCACHE_SB_VERSION_BDEV H)"
  shows "(\<forall>st0. parse_opts H parse (main_init gen) opts = Inr st0
              \<and> m_data_offset st0 < BDEV_DATA_OFFSET H (m_sb_num st0)
            \<longrightarrow> (\<exists>e. main H gen parse opts w = Some (Some e, w, 2)))
       \<and> (data_offset_arg < required_data_offset H sb_num
            \<longrightarrow> (\<exists>e. write_sb H gen alc skip dev bs bks writeback discard wipe_bcache pol
                        data_offset_arg su True bu dirty sb_num k = Some (Some e, dev, k)))"
proof -
  have "\<exists>e. main H gen parse opts w = Some (Some e, w, 2)"
    if p: "parse_opts H parse (main_init gen) opts = Inr st0"
      and q: "m_data_offset st0 < BDEV_DATA_OFFSET H (m_sb_num st0)" for st0
  proof -
    obtain e where "main_checks H w st0 = Inl e"
      using main_checks_bad_offset [OF q] by blast
    then show ?thesis
      using p by (simp add: main_def)
  qed
  then show ?thesis
    using write_sb_too_small [OF assms] by blast
qed

theorem C5_small_data_offset_rejected_witness:
  "(\<exists>e. main example_h example_gen example_uuid_parse
            [Opt_B, Opt_o ''20'', Opt_arg ''/dev/sdb''] example_world
          = Some (Some e, example_world, 2))
   \<and> (\<exists>e. write_sb example_h example_gen False False example_blank_dev 1 1024
              False False False 0 20 1 True 2 False 1 2
          = Some (Some e, example_blank_dev, 2))"
proof -
  have bdev: "SB_IS_BDEV example_h (BCACHE_SB_VERSION_BDEV example_h)"
    by (simp add: example_h_simps)
  have p: "parse_opts example_h example_uuid_parse (main_init example_gen)
             [Opt_B, Opt_o ''20'', Opt_arg ''/dev/sdb'']
           = Inr ((main_init example_gen)\<lparr> m_bdev := 1, m_data_offset := 20,
                    m_backing_devices := [''/dev/sdb''] \<rparr>)"
    by (simp add: atoll_20 main_init_def)
  have q: "BDEV_DATA_OFFSET example_h 1 = 24"
    by (simp add: example_h_def)
  show ?thesis
    using C5_small_data_offset_rejected [OF bdev, where parse = example_uuid_parse
        and gen = example_gen and opts = "[Opt_B, Opt_o ''20'', Opt_arg ''/dev/sdb'']"
        and w = example_world and data_offset_arg = 20 and sb_num = 1
        and alc = False and skip = False and dev = example_blank_dev and bs = 1
        and bks = 1024 and writeback = False and discard = False and wipe_bcache = False
        and pol = 0 and su = 1 and bu = 2 and dirty = False and k = 2] p
    by (simp add: required_example q main_init_def)
qed

text \<open>The loop over the secondary copies: what it logs.\<close>

lemma copy_sb_shift:
  "copy_sb H gen (copy_sb H gen sb k (Suc 0)) (k + 2) j = copy_sb H gen sb k (Suc j)"
  by (induction j) (simp_all add: Let_def)

lemma copy_sb_fields:
  "block_size (copy_sb H gen sb k j) = block_size sb"
  "bucket_size (copy_sb H gen sb k j) = bucket_size sb"
  "version (copy_sb H gen sb k j) = version sb"
  "nbuckets (copy_sb H gen sb k j) = nbuckets sb"
  "flags (copy_sb H gen sb k j) = flags sb"
  "magic (copy_sb H gen sb k j) = magic sb"
  by (induction j) (simp_all add: Let_def)

lemma copy_sb_uuids:
  "uuid (copy_sb H gen sb k (Suc j)) = gen (k + 2 * j)"
  "set_uuid (copy_sb H gen sb k (Suc j)) = gen (k + 2 * j + 1)"
  by (simp_all add: Let_def)

lemma copy_sb_csum:
  "\<exists>s. csum (copy_sb H gen sb k (Suc j)) = csum_set H s
       \<and> copy_sb H gen sb k (Suc j) = s\<lparr> csum := csum_set H s \<rparr>"
  by (simp add: Let_def) blast

lemma write_secondaries_log:
  assumes "write_secondaries H gen sb dev k i n = (None, dev', k')"
  shows "wlog dev' = wlog dev @
           map (\<lambda>j. (nat (SB_OFFSET H (i + int j)), sb_bytes H (copy_sb H gen sb k (Suc j))))
             [0 ..< nat (n - i)]
       \<and> k' = k + 2 * nat (n - i)"
  using assms
proof (induction H gen sb dev k i n rule: write_secondaries.induct)
  case (1 H gen sb dev k i n)
  show ?case
  proof (cases "i < n")
    case False
    with "1.prems" show ?thesis by simp
  next
    case True
    define s1 where "s1 = sb\<lparr> offset := word_of_int (SB_SECTOR H), uuid := gen k,
                              set_uuid := gen (k + 1) \<rparr>"
    define s2 where "s2 = s1\<lparr> csum := csum_set H s1 \<rparr>"
    have s2: "s2 = copy_sb H gen sb k (Suc 0)"
      by (simp add: s2_def s1_def Let_def)
    from "1.prems" True obtain d1 where
      w: "pwrite dev (sb_bytes H s2) (SB_OFFSET H i) = Some d1"
      and rest: "write_secondaries H gen s2 d1 (k + 2) (i + 1) n = (None, dev', k')"
      by (auto simp: Let_def s1_def s2_def split: option.splits)
    have ih: "wlog dev' = wlog d1 @
           map (\<lambda>j. (nat (SB_OFFSET H (i + 1 + int j)),
                      sb_bytes H (copy_sb H gen s2 (k + 2) (Suc j))))
             [0 ..< nat (n - (i + 1))]
       \<and> k' = k + 2 + 2 * nat (n - (i + 1))"
      using "1.IH" [OF True s1_def s2_def w rest] .
    have d1: "wlog d1 = wlog dev @ [(nat (SB_OFFSET H i), sb_bytes H s2)]"
      using pwrite_Some(1) [OF w] by simp
    have cnt: "nat (n - i) = Suc (nat (n - (i + 1)))"
      using True by simp
    have shift: "copy_sb H gen s2 (k + 2) (Suc j) = copy_sb H gen sb k (Suc (Suc j))" for j
      unfolding s2 by (rule copy_sb_shift)
    have lst: "[0 ..< Suc m] = 0 # map Suc [0 ..< m]" for m
      by (simp add: upt_conv_Cons map_Suc_upt del: upt_Suc)
    have "map (\<lambda>j. (nat (SB_OFFSET H (i + int j)), sb_bytes H (copy_sb H gen sb k (Suc j))))
            [0 ..< nat (n - i)]
        = (nat (SB_OFFSET H i), sb_bytes H s2) #
          map (\<lambda>j. (nat (SB_OFFSET H (i + 1 + int j)),
                     sb_bytes H (copy_sb H gen s2 (k + 2) (Suc j))))
            [0 ..< nat (n - (i + 1))]"
      unfolding cnt lst shift
      by (simp add: s2 comp_def add.commute add.left_commute del: copy_sb.simps)
    then show ?thesis
      using ih d1 cnt by simp
  qed
qed

text \<open>A call of \<open>write_sb\<close> that returns has passed through each of its stages.\<close>

lemma sb_backing_Inr:
  assumes "sb_backing H sb0 writeback dirty data_offset_arg sb_num = Inr sb1"
  shows "block_size sb1 = block_size sb0" "bucket_size sb1 = bucket_size sb0"
    "uuid sb1 = uuid sb0" "set_uuid sb1 = set_uuid sb0" "magic sb1 = magic sb0"
    "flags sb1 = SET_BDEV_CACHE_MODE H
                   (if writeback then CACHE_MODE_WRITEBACK H else CACHE_MODE_WRITETHROUGH H)
                   (if dirty then SET_BDEV_STATE H (BDEV_STATE_DIRTY H) (flags sb0)
                    else flags sb0)"
    "version sb1 = (if data_offset_arg \<noteq> word_of_int (BDEV_DATA_START_DEFAULT H)
                    then BCACHE_SB_VERSION_BDEV_WITH_OFFSET H else version sb0)"
    "nbuckets sb1 = (if data_offset_arg \<noteq> word_of_int (BDEV_DATA_START_DEFAULT H)
                     then data_offset_arg else nbuckets sb0)"
    "\<not> data_offset sb1 < required_data_offset H sb_num"
  using assms by (auto simp: sb_backing_def Let_def split: if_splits)

lemma write_marker_log:
  assumes "write_marker alc skip dev = Some dev'"
  shows "wlog dev' = wlog dev @ tl (header_log H alc skip)"
proof (cases alc)
  case True
  then show ?thesis
    using assms pwrite_Some(1) [of dev "ascii_bytes ''alcubierre''" 0 dev']
    by (simp add: write_marker_def header_log_def)
next
  case False
  show ?thesis
  proof (cases skip)
    case True
    then show ?thesis
      using assms \<open>\<not> alc\<close> pwrite_Some(1) [of dev "ascii_bytes ''##skipudev''" 0 dev']
      by (simp add: write_marker_def header_log_def)
  next
    case False
    then show ?thesis
      using assms \<open>\<not> alc\<close> by (simp add: write_marker_def header_log_def)
  qed
qed

lemma write_primary_log:
  assumes "write_primary H alc skip dev sb = (None, dev3)"
  shows "wlog dev3 = wlog dev @ header_log H alc skip @ [(SB_START H, sb_bytes H sb)]"
proof -
  from assms obtain dev1 where
    w1: "pwrite dev (replicate (SB_START H) 0) 0 = Some dev1"
    by (cases "pwrite dev (replicate (SB_START H) 0) 0") (simp_all add: write_primary_def)
  from assms w1 obtain dev2 where
    w2: "write_marker alc skip dev1 = Some dev2"
    by (cases "write_marker alc skip dev1") (simp_all add: write_primary_def)
  from assms w1 w2 have
    w3: "pwrite dev2 (sb_bytes H sb) (int (SB_START H)) = Some dev3"
    by (cases "pwrite dev2 (sb_bytes H sb) (int (SB_START H))") (simp_all add: write_primary_def)
  have l1: "wlog dev1 = wlog dev @ [(0, replicate (SB_START H) 0)]"
    using pwrite_Some(1) [OF w1] by simp
  have l2: "wlog dev2 = wlog dev1 @ tl (header_log H alc skip)"
    by (rule write_marker_log [OF w2])
  have l3: "wlog dev3 = wlog dev2 @ [(SB_START H, sb_bytes H sb)]"
    using pwrite_Some(1) [OF w3] by simp
  have hd: "header_log H alc skip = (0, replicate (SB_START H) 0) # tl (header_log H alc skip)"
    by (simp add: header_log_def)
  show ?thesis
    unfolding l3 l2 l1 by (subst (2) hd) simp
qed

lemma write_sb_returns:
  assumes "write_sb H gen alc skip dev bs bks writeback discard wipe_bcache pol
           data_offset_arg su bdev bu dirty sb_num k = Some (None, dev', k')"
  shows "\<exists>sb dev3. open_checks H dev wipe_bcache = None
      \<and> build_sb H dev bs bks writeback discard pol data_offset_arg su bdev bu dirty sb_num
          = Inr sb
      \<and> write_primary H alc skip dev sb = (None, dev3)
      \<and> write_rest H gen sb dev3 sb_num k = Some (None, dev', k')"
proof (cases "open_checks H dev wipe_bcache")
  case (Some e)
  with assms show ?thesis by (simp add: write_sb_def)
next
  case None
  note oc = None
  show ?thesis
  proof (cases "build_sb H dev bs bks writeback discard pol data_offset_arg su bdev bu
                  dirty sb_num")
    case (Inl e)
    with assms oc show ?thesis by (simp add: write_sb_def)
  next
    case (Inr sb)
    obtain r dev3 where wp: "write_primary H alc skip dev sb = (r, dev3)"
      by (cases "write_primary H alc skip dev sb") auto
    show ?thesis
    proof (cases r)
      case (Some e)
      with assms oc Inr wp show ?thesis by (simp add: write_sb_def)
    next
      case None
      with assms oc Inr wp show ?thesis by (simp add: write_sb_def)
    qed
  qed
qed

lemma build_sb_backing:
  assumes "versions_ok H"
    and "build_sb H dev bs bks writeback discard pol data_offset_arg su True bu dirty sb_num
           = Inr sb"
  shows "\<exists>sb1. sb_backing H (sb_init H True su bu bs bks) writeback dirty data_offset_arg sb_num
                 = Inr sb1 \<and> sb = sb1\<lparr> csum := csum_set H sb1 \<rparr>"
    and "SB_IS_BDEV H (version sb)"
proof -
  define sb0 where "sb0 = sb_init H True su bu bs bks"
  have ver0: "version sb0 = BCACHE_SB_VERSION_BDEV H"
    by (simp add: sb0_def sb_init_def)
  then have v0: "SB_IS_BDEV H (version sb0)"
    using assms(1) by (simp add: versions_ok_def)
  from assms(2) obtain sb1 where
    sb1: "sb_backing H sb0 writeback dirty data_offset_arg sb_num = Inr sb1"
    and sb: "sb = sb1\<lparr> csum := csum_set H sb1 \<rparr>"
    by (cases "sb_backing H sb0 writeback dirty data_offset_arg sb_num")
      (auto simp: build_sb_def Let_def v0 sb0_def [symmetric])
  show "\<exists>sb1. sb_backing H (sb_init H True su bu bs bks) writeback dirty data_offset_arg sb_num
                 = Inr sb1 \<and> sb = sb1\<lparr> csum := csum_set H sb1 \<rparr>"
    using sb1 sb unfolding sb0_def by blast
  show "SB_IS_BDEV H (version sb)"
    using assms(1) sb_backing_Inr(7) [OF sb1] ver0 by (simp add: sb versions_ok_def)
qed

lemma write_sb_backing_log:
  assumes "versions_ok H"
    and "write_sb H gen alc skip dev bs bks writeback discard wipe_bcache pol
           data_offset_arg su True bu dirty sb_num k = Some (None, dev', k')"
  shows "\<exists>sb. build_sb H dev bs bks writeback discard pol data_offset_arg su True bu dirty sb_num
                 = Inr sb
      \<and> wlog dev' = wlog dev @ header_log H alc skip @
            map (\<lambda>j. (copy_offset H j, sb_bytes H (copy_sb H gen sb k j)))
              [0 ..< Suc (nat (sb_num - 1))]
      \<and> k' = k + 2 * nat (sb_num - 1)"
proof -
  from write_sb_returns [OF assms(2)] obtain sb dev3 where
    b: "build_sb H dev bs bks writeback discard pol data_offset_arg su True bu dirty sb_num
          = Inr sb"
    and wp: "write_primary H alc skip dev sb = (None, dev3)"
    and wr: "write_rest H gen sb dev3 sb_num k = Some (None, dev', k')"
    by blast
  have v: "SB_IS_BDEV H (version sb)"
    by (rule build_sb_backing(2) [OF assms(1) b])
  have w4: "write_secondaries H gen sb dev3 k 1 sb_num = (None, dev', k')"
    using wr v by (simp add: write_rest_def)
  have l3: "wlog dev3 = wlog dev @ header_log H alc skip @ [(SB_START H, sb_bytes H sb)]"
    by (rule write_primary_log [OF wp])
  have l4: "wlog dev' = wlog dev3 @
           map (\<lambda>j. (nat (SB_OFFSET H (1 + int j)), sb_bytes H (copy_sb H gen sb k (Suc j))))
             [0 ..< nat (sb_num - 1)]"
    and k': "k' = k + 2 * nat (sb_num - 1)"
    using write_secondaries_log [OF w4] by simp_all
  have lst: "[0 ..< Suc m] = 0 # map Suc [0 ..< m]" for m
    by (simp add: upt_conv_Cons map_Suc_upt del: upt_Suc)
  have "map (\<lambda>j. (copy_offset H j, sb_bytes H (copy_sb H gen sb k j)))
          [0 ..< Suc (nat (sb_num - 1))]
      = (SB_START H, sb_bytes H sb) #
        map (\<lambda>j. (nat (SB_OFFSET H (1 + int j)), sb_bytes H (copy_sb H gen sb k (Suc j))))
          [0 ..< nat (sb_num - 1)]"
    unfolding lst
    by (simp add: comp_def copy_offset_def add.commute del: copy_sb.simps(2))
  then have "wlog dev' = wlog dev @ header_log H alc skip @
            map (\<lambda>j. (copy_offset H j, sb_bytes H (copy_sb H gen sb k j)))
              [0 ..< Suc (nat (sb_num - 1))]"
    using l3 l4 by simp
  then show ?thesis
    using b k' by blast
qed

text \<open>When every copy fits the device, the loop over the secondary copies returns.\<close>

lemma write_secondaries_succeeds:
  assumes "layout_sized H"
    and "\<forall>j. i \<le> j \<and> j < n \<longrightarrow> 0 \<le> SB_OFFSET H j \<and> nat (SB_OFFSET H j) + sizeof_sb H \<le> dev_size dev"
  shows "\<exists>dev'. write_secondaries H gen sb dev k i n = (None, dev', k + 2 * nat (n - i))
            \<and> dev_size dev' = dev_size dev"
  using assms
proof (induction H gen sb dev k i n rule: write_secondaries.induct)
  case (1 H gen sb dev k i n)
  show ?case
  proof (cases "i < n")
    case False
    then show ?thesis by simp
  next
    case True
    define s1 where "s1 = sb\<lparr> offset := word_of_int (SB_SECTOR H), uuid := gen k,
                              set_uuid := gen (k + 1) \<rparr>"
    define s2 where "s2 = s1\<lparr> csum := csum_set H s1 \<rparr>"
    have len: "length (sb_bytes H s2) = sizeof_sb H"
      using "1.prems"(1) by (simp add: layout_sized_def)
    have fit: "0 \<le> SB_OFFSET H i" "nat (SB_OFFSET H i) + length (sb_bytes H s2) \<le> dev_size dev"
      using "1.prems"(2) True len by auto
    define d1 where "d1 = dev\<lparr> contents := blit (contents dev) (nat (SB_OFFSET H i)) (sb_bytes H s2),
                                 wlog := wlog dev @ [(nat (SB_OFFSET H i), sb_bytes H s2)] \<rparr>"
    have w: "pwrite dev (sb_bytes H s2) (SB_OFFSET H i) = Some d1"
      unfolding d1_def by (rule pwrite_fits [OF fit])
    have sz: "dev_size d1 = dev_size dev" by (simp add: d1_def)
    have "\<forall>j. i + 1 \<le> j \<and> j < n \<longrightarrow>
            0 \<le> SB_OFFSET H j \<and> nat (SB_OFFSET H j) + sizeof_sb H \<le> dev_size d1"
      using "1.prems"(2) sz by auto
    from "1.IH" [OF True s1_def s2_def w "1.prems"(1) this]
    obtain dev' where
      r: "write_secondaries H gen s2 d1 (k + 2) (i + 1) n
            = (None, dev', k + 2 + 2 * nat (n - (i + 1)))"
      and sz': "dev_size dev' = dev_size d1"
      by blast
    have cnt: "nat (n - i) = Suc (nat (n - (i + 1)))"
      using True by simp
    have "write_secondaries H gen sb dev k i n = write_secondaries H gen s2 d1 (k + 2) (i + 1) n"
      using True w by (subst write_secondaries.simps) (simp add: Let_def s1_def s2_def)
    then show ?thesis
      using r sz' sz cnt by simp
  qed
qed

text \<open>When the device passes the checks and every copy fits, formatting a backing device
  returns.\<close>

lemma open_checks_passes:
  assumes "excl_open_ok dev" and "SB_START H + sizeof_sb H \<le> dev_size dev"
    and "wipe_bcache \<or> magic (sb_at H dev (int (SB_START H))) \<noteq> bcache_magic H"
    and "probe_setup_ok dev" and "blkid_do_probe dev \<noteq> 0"
  shows "open_checks H dev wipe_bcache = None"
  using assms by (auto simp: open_checks_def pread_def sb_at_def)

lemma write_marker_succeeds:
  assumes "10 \<le> dev_size dev"
  shows "\<exists>dev'. write_marker alc skip dev = Some dev' \<and> dev_size dev' = dev_size dev"
  using assms by (simp add: write_marker_def pwrite_def ascii_bytes_def)

lemma write_primary_succeeds:
  assumes "layout_sized H" and "10 \<le> dev_size dev"
    and "SB_START H + sizeof_sb H \<le> dev_size dev"
  shows "\<exists>dev3. write_primary H alc skip dev sb = (None, dev3) \<and> dev_size dev3 = dev_size dev"
proof -
  have "0 \<le> (0::int)" "nat 0 + length (replicate (SB_START H) (0::byte)) \<le> dev_size dev"
    using assms(3) by simp_all
  from pwrite_fits [OF this] obtain dev1 where
    w1: "pwrite dev (replicate (SB_START H) 0) 0 = Some dev1" by blast
  have s1: "dev_size dev1 = dev_size dev" by (rule pwrite_size [OF w1])
  obtain dev2 where w2: "write_marker alc skip dev1 = Some dev2"
    and s2: "dev_size dev2 = dev_size dev1"
    using write_marker_succeeds [of dev1 alc skip] assms(2) s1 by auto
  have "0 \<le> int (SB_START H)"
    "nat (int (SB_START H)) + length (sb_bytes H sb) \<le> dev_size dev2"
    using assms(1,3) s1 s2 by (simp_all add: layout_sized_def)
  from pwrite_fits [OF this] obtain dev3 where
    w3: "pwrite dev2 (sb_bytes H sb) (int (SB_START H)) = Some dev3" by blast
  have s3: "dev_size dev3 = dev_size dev2" by (rule pwrite_size [OF w3])
  show ?thesis
    using w1 w2 w3 s1 s2 s3 by (simp add: write_primary_def)
qed

lemma build_sb_backing_succeeds:
  assumes "versions_ok H"
    and "\<not> (if data_offset_arg \<noteq> word_of_int (BDEV_DATA_START_DEFAULT H)
            then data_offset_arg else 0) < required_data_offset H sb_num"
  shows "\<exists>sb. build_sb H dev bs bks writeback discard pol data_offset_arg su True bu dirty sb_num
           = Inr sb"
  using assms
  by (auto simp: build_sb_def sb_init_def versions_ok_def sb_backing_def Let_def zero_sb_def
      data_offset_def split: if_splits)

lemma write_sb_backing_succeeds:
  assumes "versions_ok H" and "layout_sized H"
    and "excl_open_ok dev" and "probe_setup_ok dev" and "blkid_do_probe dev \<noteq> 0"
    and "wipe_bcache \<or> magic (sb_at H dev (int (SB_START H))) \<noteq> bcache_magic H"
    and "10 \<le> dev_size dev" and "SB_START H + sizeof_sb H \<le> dev_size dev"
    and "\<forall>j. 1 \<le> j \<and> j < sb_num
           \<longrightarrow> 0 \<le> SB_OFFSET H j \<and> nat (SB_OFFSET H j) + sizeof_sb H \<le> dev_size dev"
    and "\<not> (if data_offset_arg \<noteq> word_of_int (BDEV_DATA_START_DEFAULT H)
            then data_offset_arg else 0) < required_data_offset H sb_num"
  shows "\<exists>dev'. write_sb H gen alc skip dev bs bks writeback discard wipe_bcache pol
                  data_offset_arg su True bu dirty sb_num k
                = Some (None, dev', k + 2 * nat (sb_num - 1))"
proof -
  have oc: "open_checks H dev wipe_bcache = None"
    by (rule open_checks_passes [OF assms(3,8,6,4,5)])
  obtain sb where b: "build_sb H dev bs bks writeback discard pol data_offset_arg su True bu
                        dirty sb_num = Inr sb"
    using build_sb_backing_succeeds [OF assms(1,10)] by blast
  have v: "SB_IS_BDEV H (version sb)"
    by (rule build_sb_backing(2) [OF assms(1) b])
  obtain dev3 where wp: "write_primary H alc skip dev sb = (None, dev3)"
    and s3: "dev_size dev3 = dev_size dev"
    using write_primary_succeeds [OF assms(2,7,8)] by blast
  have "\<forall>j. 1 \<le> j \<and> j < sb_num
           \<longrightarrow> 0 \<le> SB_OFFSET H j \<and> nat (SB_OFFSET H j) + sizeof_sb H \<le> dev_size dev3"
    using assms(9) s3 by simp
  from write_secondaries_succeeds [OF assms(2) this]
  obtain dev' where "write_secondaries H gen sb dev3 k 1 sb_num
                       = (None, dev', k + 2 * nat (sb_num - 1))"
    by blast
  then show ?thesis
    using oc b wp v by (simp add: write_sb_def write_rest_def)
qed

text \<open>The example header and the blank example device.\<close>

lemma example_versions_ok: "versions_ok example_h"
  by (simp add: versions_ok_def example_h_simps)

lemma read_bytes_zero: "read_bytes (\<lambda>a. 0) off n = replicate n 0"
  by (simp add: read_bytes_def map_replicate_const)

lemma le_val_zero: "le_val (replicate n 0) = 0"
  by (induction n) simp_all

lemma example_bytes_sb_zero: "example_bytes_sb (replicate 2256 0) = zero_sb"
  by (simp add: example_bytes_sb_def zero_sb_def le_val_zero)

lemma example_blank_sb: "sb_at example_h example_blank_dev off = zero_sb"
  by (simp add: sb_at_def example_h_simps example_blank_dev_def read_bytes_zero
      example_bytes_sb_zero)

lemma example_magic_nonzero: "magic zero_sb \<noteq> bcache_magic example_h"
  by (simp add: zero_sb_def example_h_def)

lemma example_required: "required_data_offset example_h n = word_of_int (c_int (16 + c_int (n * 8)))"
  by (simp add: required_data_offset_def example_h_simps)

lemma example_format3:
  "\<exists>dev'. write_sb example_h example_gen False False example_blank_dev 1 1024
             False False False 0 40 1 True 2 False 3 2 = Some (None, dev', 6)"
proof -
  have "\<exists>dev'. write_sb example_h example_gen False False example_blank_dev 1 1024
             False False False 0 40 1 True 2 False 3 2 = Some (None, dev', 2 + 2 * nat (3 - 1))"
  proof (rule write_sb_backing_succeeds [OF example_versions_ok example_layout_sized])
    show "excl_open_ok example_blank_dev" "probe_setup_ok example_blank_dev"
      "blkid_do_probe example_blank_dev \<noteq> 0" "10 \<le> dev_size example_blank_dev"
      "SB_START example_h + sizeof_sb example_h \<le> dev_size example_blank_dev"
      by (simp_all add: example_blank_dev_def example_h_simps)
    show "False \<or> magic (sb_at example_h example_blank_dev (int (SB_START example_h)))
            \<noteq> bcache_magic example_h"
      by (simp add: example_blank_sb example_magic_nonzero)
    show "\<forall>j. 1 \<le> j \<and> j < 3 \<longrightarrow> 0 \<le> SB_OFFSET example_h j
            \<and> nat (SB_OFFSET example_h j) + sizeof_sb example_h \<le> dev_size example_blank_dev"
      by (auto simp: example_h_simps example_blank_dev_def)
    show "\<not> (if (40 :: 64 word) \<noteq> word_of_int (BDEV_DATA_START_DEFAULT example_h)
              then 40 else 0) < required_data_offset example_h 3"
      by (simp add: example_required example_h_simps c_int_def)
  qed
  then show ?thesis by simp
qed

lemma example_gen_inj: "inj_on example_gen {2 ..< 6}"
proof (rule inj_onI)
  fix x y :: nat
  assume x: "x \<in> {2 ..< 6}" and y: "y \<in> {2 ..< 6}" and e: "example_gen x = example_gen y"
  from e have "(word_of_nat x :: 128 word) = word_of_nat y"
    by (simp add: example_gen_def)
  then have "take_bit 128 x = take_bit 128 y"
    by (simp add: word_of_nat_eq_iff)
  moreover have "x < 2 ^ 128" "y < 2 ^ 128" using x y by simp_all
  ultimately show "x = y"
    by (simp add: take_bit_nat_eq_self)
qed

text \<open>The example generator keeps the contract over its calls 2 to 5, with 1 and 2 in use.\<close>

lemma example_gen_fresh: "uuid_generate_fresh example_gen 2 6 {1, 2}"
proof -
  have "example_gen i \<noteq> 1 \<and> example_gen i \<noteq> 2" if "i \<in> {2 ..< 6}" for i
  proof -
    have "i = 2 \<or> i = 3 \<or> i = 4 \<or> i = 5" using that by auto
    then show ?thesis by (auto simp: example_gen_def)
  qed
  then show ?thesis
    using example_gen_inj by (simp add: uuid_generate_fresh_def)
qed

text \<open>
  C4. The claim counts a primary record and the secondaries \<open>1 .. N - 1\<close>, so \<open>N\<close> is at
  least 1. A backing format with \<open>sb_num = N \<ge> 1\<close> that returns has logged, after the
  zeroed header and the optional tag, exactly \<open>N\<close> records: copy 0 at \<open>SB_START\<close> and copy
  \<open>j\<close> at \<open>SB_OFFSET(j)\<close> for \<open>1 \<le> j < N\<close>. All have the \<open>block_size\<close> and \<open>bucket_size\<close>
  passed in and the same version and \<open>data_offset\<close>; each carries the checksum computed on
  the struct as it stood for that copy. Copy 0 has the UUIDs passed in; copy \<open>j \<ge> 1\<close> has
  the two values that \<open>uuid_generate\<close> returned for it, calls number \<open>k + 2 (j - 1)\<close> and
  the next. Under the contract of \<open>uuid_generate\<close> any two of the \<open>N\<close> copies, the primary
  one included, differ in their device UUID and in their set UUID.
\<close>

theorem C4_backing_copies:
  assumes "versions_ok H"
    and "write_sb H gen alc skip dev bs bks writeback discard wipe_bcache pol
           data_offset_arg su True bu dirty sb_num k = Some (None, dev', k')"
    and "1 \<le> sb_num"
  shows "\<exists>recs. length recs = nat sb_num
      \<and> wlog dev' = wlog dev @ header_log H alc skip @
            map (\<lambda>j. (copy_offset H j, sb_bytes H (recs ! j))) [0 ..< nat sb_num]
      \<and> (\<forall>j < nat sb_num.
            block_size (recs ! j) = ucast bs \<and> bucket_size (recs ! j) = ucast bks
            \<and> version (recs ! j) = version (recs ! 0)
            \<and> data_offset (recs ! j) = data_offset (recs ! 0)
            \<and> (\<exists>s. recs ! j = s\<lparr> csum := csum_set H s \<rparr>))
      \<and> uuid (recs ! 0) = bu \<and> set_uuid (recs ! 0) = su
      \<and> (\<forall>j. 1 \<le> j \<and> j < nat sb_num
            \<longrightarrow> uuid (recs ! j) = gen (k + 2 * (j - 1))
              \<and> set_uuid (recs ! j) = gen (k + 2 * (j - 1) + 1))
      \<and> k' = k + 2 * (nat sb_num - 1)
      \<and> (uuid_generate_fresh gen k k' {su, bu}
            \<longrightarrow> (\<forall>i j. i < j \<and> j < nat sb_num
                  \<longrightarrow> uuid (recs ! i) \<noteq> uuid (recs ! j)
                    \<and> set_uuid (recs ! i) \<noteq> set_uuid (recs ! j)
                    \<and> uuid (recs ! i) \<noteq> set_uuid (recs ! j)
                    \<and> set_uuid (recs ! i) \<noteq> uuid (recs ! j)))"
proof -
  from write_sb_backing_log [OF assms(1,2)] obtain sb where
    b: "build_sb H dev bs bks writeback discard pol data_offset_arg su True bu dirty sb_num
          = Inr sb"
    and lg: "wlog dev' = wlog dev @ header_log H alc skip @
            map (\<lambda>j. (copy_offset H j, sb_bytes H (copy_sb H gen sb k j)))
              [0 ..< Suc (nat (sb_num - 1))]"
    and k': "k' = k + 2 * nat (sb_num - 1)"
    by blast
  from build_sb_backing(1) [OF assms(1) b] obtain sb1 where
    sb1: "sb_backing H (sb_init H True su bu bs bks) writeback dirty data_offset_arg sb_num
            = Inr sb1"
    and sb: "sb = sb1\<lparr> csum := csum_set H sb1 \<rparr>"
    by blast
  have n: "Suc (nat (sb_num - 1)) = nat sb_num" "nat (sb_num - 1) = nat sb_num - 1"
    using assms(3) by simp_all
  define recs where "recs = map (copy_sb H gen sb k) [0 ..< nat sb_num]"
  have len: "length recs = nat sb_num"
    by (simp add: recs_def)
  have nth: "recs ! j = copy_sb H gen sb k j" if "j < nat sb_num" for j
    using that by (simp add: recs_def)
  have pos: "0 < nat sb_num" using assms(3) by simp
  have r0: "recs ! 0 = sb"
    using nth [OF pos] by simp
  have log: "wlog dev' = wlog dev @ header_log H alc skip @
            map (\<lambda>j. (copy_offset H j, sb_bytes H (recs ! j))) [0 ..< nat sb_num]"
  proof -
    have "map (\<lambda>j. (copy_offset H j, sb_bytes H (recs ! j))) [0 ..< nat sb_num]
        = map (\<lambda>j. (copy_offset H j, sb_bytes H (copy_sb H gen sb k j))) [0 ..< nat sb_num]"
      by (rule map_cong) (simp_all add: nth del: copy_sb.simps)
    then show ?thesis
      unfolding lg n(1) by simp
  qed
  have geom: "block_size (recs ! j) = ucast bs \<and> bucket_size (recs ! j) = ucast bks
            \<and> version (recs ! j) = version (recs ! 0)
            \<and> data_offset (recs ! j) = data_offset (recs ! 0)
            \<and> (\<exists>s. recs ! j = s\<lparr> csum := csum_set H s \<rparr>)" if "j < nat sb_num" for j
  proof -
    have "\<exists>s. copy_sb H gen sb k j = s\<lparr> csum := csum_set H s \<rparr>"
    proof (cases j)
      case 0
      then show ?thesis using sb by auto
    next
      case (Suc m)
      then show ?thesis using copy_sb_csum [of H gen sb k m] by blast
    qed
    then show ?thesis
      using sb_backing_Inr(1,2) [OF sb1]
      by (simp add: nth [OF that] r0 copy_sb_fields data_offset_def sb sb_init_def
          del: copy_sb.simps)
  qed
  have ids0: "uuid (recs ! 0) = bu \<and> set_uuid (recs ! 0) = su"
    using sb_backing_Inr(3,4) [OF sb1] by (simp add: r0 sb sb_init_def)
  have ids: "uuid (recs ! j) = gen (k + 2 * (j - 1))
              \<and> set_uuid (recs ! j) = gen (k + 2 * (j - 1) + 1)"
    if j1: "1 \<le> j" and j2: "j < nat sb_num" for j
  proof -
    obtain m where m: "j = Suc m" using j1 by (cases j) auto
    have "recs ! j = copy_sb H gen sb k (Suc m)"
      using nth [OF j2] by (simp only: m)
    then show ?thesis
      by (simp add: copy_sb_uuids m del: copy_sb.simps)
  qed
  have k2: "k' = k + 2 * (nat sb_num - 1)"
    using k' n(2) by simp
  have dist: "uuid (recs ! i) \<noteq> uuid (recs ! j)
                    \<and> set_uuid (recs ! i) \<noteq> set_uuid (recs ! j)
                    \<and> uuid (recs ! i) \<noteq> set_uuid (recs ! j)
                    \<and> set_uuid (recs ! i) \<noteq> uuid (recs ! j)"
    if fr: "uuid_generate_fresh gen k k' {su, bu}" and i2: "i < j" and i3: "j < nat sb_num"
    for i j
  proof -
    have inj: "inj_on gen {k ..< k'}"
      and out: "\<And>m. m \<in> {k ..< k'} \<Longrightarrow> gen m \<noteq> su \<and> gen m \<noteq> bu"
      using fr by (auto simp: uuid_generate_fresh_def)
    have j1: "1 \<le> j" using i2 by simp
    have j: "uuid (recs ! j) = gen (k + 2 * (j - 1))"
        "set_uuid (recs ! j) = gen (k + 2 * (j - 1) + 1)"
      using ids [of j] j1 i3 by simp_all
    have rj: "k + 2 * (j - 1) \<in> {k ..< k'}" "k + 2 * (j - 1) + 1 \<in> {k ..< k'}"
      using j1 i3 unfolding k2 by auto
    show ?thesis
    proof (cases "i = 0")
      case True
      show ?thesis
        unfolding True j using ids0 out [OF rj(1)] out [OF rj(2)] by auto
    next
      case False
      then have i1: "1 \<le> i" by simp
      have i: "uuid (recs ! i) = gen (k + 2 * (i - 1))"
          "set_uuid (recs ! i) = gen (k + 2 * (i - 1) + 1)"
        using ids [of i] i1 i2 i3 by simp_all
      have ri: "k + 2 * (i - 1) \<in> {k ..< k'}" "k + 2 * (i - 1) + 1 \<in> {k ..< k'}"
        using i1 i2 i3 unfolding k2 by auto
      have ne: "k + 2 * (i - 1) \<noteq> k + 2 * (j - 1)"
        "k + 2 * (i - 1) + 1 \<noteq> k + 2 * (j - 1) + 1"
        "k + 2 * (i - 1) \<noteq> k + 2 * (j - 1) + 1" "k + 2 * (i - 1) + 1 \<noteq> k + 2 * (j - 1)"
        using i1 i2 by presburger+
      show ?thesis
        unfolding i j using inj ri rj ne by (auto dest: inj_onD)
    qed
  qed
  have g: "\<forall>j < nat sb_num.
            block_size (recs ! j) = ucast bs \<and> bucket_size (recs ! j) = ucast bks
            \<and> version (recs ! j) = version (recs ! 0)
            \<and> data_offset (recs ! j) = data_offset (recs ! 0)
            \<and> (\<exists>s. recs ! j = s\<lparr> csum := csum_set H s \<rparr>)"
    using geom by blast
  have u: "\<forall>j. 1 \<le> j \<and> j < nat sb_num
            \<longrightarrow> uuid (recs ! j) = gen (k + 2 * (j - 1))
              \<and> set_uuid (recs ! j) = gen (k + 2 * (j - 1) + 1)"
    using ids by blast
  have d: "uuid_generate_fresh gen k k' {su, bu}
            \<longrightarrow> (\<forall>i j. i < j \<and> j < nat sb_num
                  \<longrightarrow> uuid (recs ! i) \<noteq> uuid (recs ! j)
                    \<and> set_uuid (recs ! i) \<noteq> set_uuid (recs ! j)
                    \<and> uuid (recs ! i) \<noteq> set_uuid (recs ! j)
                    \<and> set_uuid (recs ! i) \<noteq> uuid (recs ! j))"
    using dist by blast
  from len log g ids0 u k2 d show ?thesis
    by (intro exI [of _ recs]) (simp only: simp_thms)
qed

theorem C4_backing_copies_witness:
  "\<exists>dev' recs. write_sb example_h example_gen False False example_blank_dev 1 1024
             False False False 0 40 1 True 2 False 3 2 = Some (None, dev', 6)
      \<and> length recs = 3
      \<and> wlog dev' = header_log example_h False False @
            [(4096, sb_bytes example_h (recs ! 0)), (8192, sb_bytes example_h (recs ! 1)),
             (12288, sb_bytes example_h (recs ! 2))]
      \<and> block_size (recs ! 2) = 1 \<and> bucket_size (recs ! 2) = 1024
      \<and> uuid (recs ! 0) = 2 \<and> uuid (recs ! 1) = example_gen 2 \<and> uuid (recs ! 2) = example_gen 4
      \<and> uuid (recs ! 0) \<noteq> uuid (recs ! 1) \<and> uuid (recs ! 0) \<noteq> uuid (recs ! 2)
      \<and> uuid (recs ! 1) \<noteq> uuid (recs ! 2)
      \<and> set_uuid (recs ! 0) \<noteq> set_uuid (recs ! 1)
      \<and> set_uuid (recs ! 0) \<noteq> set_uuid (recs ! 2)
      \<and> set_uuid (recs ! 1) \<noteq> set_uuid (recs ! 2)"
proof -
  obtain dev' where w: "write_sb example_h example_gen False False example_blank_dev 1 1024
             False False False 0 40 1 True 2 False 3 2 = Some (None, dev', 6)"
    using example_format3 by blast
  have n: "(1::int) \<le> 3" by simp
  from C4_backing_copies [OF example_versions_ok w n] obtain recs where
    r: "length recs = nat 3"
      "wlog dev' = wlog example_blank_dev @ header_log example_h False False @
            map (\<lambda>j. (copy_offset example_h j, sb_bytes example_h (recs ! j))) [0 ..< nat 3]"
      "\<forall>j < nat 3. block_size (recs ! j) = ucast (1 :: 32 word)
            \<and> bucket_size (recs ! j) = ucast (1024 :: 32 word)
            \<and> version (recs ! j) = version (recs ! 0)
            \<and> data_offset (recs ! j) = data_offset (recs ! 0)
            \<and> (\<exists>s. recs ! j = s\<lparr> csum := csum_set example_h s \<rparr>)"
      "uuid (recs ! 0) = 2"
      "\<forall>j. 1 \<le> j \<and> j < nat 3
            \<longrightarrow> uuid (recs ! j) = example_gen (2 + 2 * (j - 1))
              \<and> set_uuid (recs ! j) = example_gen (2 + 2 * (j - 1) + 1)"
      "uuid_generate_fresh example_gen 2 6 {1, 2}
            \<longrightarrow> (\<forall>i j. i < j \<and> j < nat 3
                  \<longrightarrow> uuid (recs ! i) \<noteq> uuid (recs ! j)
                    \<and> set_uuid (recs ! i) \<noteq> set_uuid (recs ! j)
                    \<and> uuid (recs ! i) \<noteq> set_uuid (recs ! j)
                    \<and> set_uuid (recs ! i) \<noteq> uuid (recs ! j))"
    by blast
  have l: "length recs = 3" using r(1) by simp
  have lg: "wlog dev' = header_log example_h False False @
            [(4096, sb_bytes example_h (recs ! 0)), (8192, sb_bytes example_h (recs ! 1)),
             (12288, sb_bytes example_h (recs ! 2))]"
    using r(2) by (simp add: example_blank_dev_def copy_offset_def example_h_simps
        numeral_3_eq_3 numeral_2_eq_2 upt_rec)
  have g: "block_size (recs ! 2) = 1 \<and> bucket_size (recs ! 2) = 1024"
    using r(3) [THEN spec, of 2] by simp
  have u1: "uuid (recs ! 1) = example_gen 2"
    using r(5) [THEN spec, of 1] by simp
  have u2: "uuid (recs ! 2) = example_gen 4"
    using r(5) [THEN spec, of 2] by simp
  have d: "\<forall>i j. i < j \<and> j < nat 3
                  \<longrightarrow> uuid (recs ! i) \<noteq> uuid (recs ! j)
                    \<and> set_uuid (recs ! i) \<noteq> set_uuid (recs ! j)
                    \<and> uuid (recs ! i) \<noteq> set_uuid (recs ! j)
                    \<and> set_uuid (recs ! i) \<noteq> uuid (recs ! j)"
    using r(6) example_gen_fresh by blast
  have ne: "uuid (recs ! 0) \<noteq> uuid (recs ! 1)" "uuid (recs ! 0) \<noteq> uuid (recs ! 2)"
    "uuid (recs ! 1) \<noteq> uuid (recs ! 2)"
    "set_uuid (recs ! 0) \<noteq> set_uuid (recs ! 1)" "set_uuid (recs ! 0) \<noteq> set_uuid (recs ! 2)"
    "set_uuid (recs ! 1) \<noteq> set_uuid (recs ! 2)"
    using d [THEN spec, of 0, THEN spec, of 1] d [THEN spec, of 0, THEN spec, of 2]
      d [THEN spec, of 1, THEN spec, of 2]
    by simp_all
  show ?thesis
    using w l lg g r(4) u1 u2 ne by blast
qed

text \<open>
  Below one copy. \<open>main\<close> rejects an \<open>-s\<close> argument above \<open>BDEV_SB_NUM_MAX\<close> and nothing
  else (the \<open>-r\<close> handler next to it checks both ends of its range), so \<open>write_sb\<close> can be
  called with \<open>sb_num \<le> 0\<close>. The loop over the secondaries then does not run: a backing
  format with \<open>sb_num = 0\<close> and a data offset of 100 sectors returns having written the
  zeroed header and the primary record alone.
\<close>

lemma write_sb_zero_copies_example:
  "\<exists>dev'. write_sb example_h example_gen False False example_blank_dev 1 1024
             False False False 0 100 1 True 2 False 0 2 = Some (None, dev', 2)
      \<and> map (\<lambda>(off, bs). (off, length bs)) (wlog dev') = [(0, 4096), (4096, 2256)]"
proof -
  have "\<exists>dev'. write_sb example_h example_gen False False example_blank_dev 1 1024
             False False False 0 100 1 True 2 False 0 2 = Some (None, dev', 2 + 2 * nat (0 - 1))"
  proof (rule write_sb_backing_succeeds [OF example_versions_ok example_layout_sized])
    show "excl_open_ok example_blank_dev" "probe_setup_ok example_blank_dev"
      "blkid_do_probe example_blank_dev \<noteq> 0" "10 \<le> dev_size example_blank_dev"
      "SB_START example_h + sizeof_sb example_h \<le> dev_size example_blank_dev"
      by (simp_all add: example_blank_dev_def example_h_simps)
    show "False \<or> magic (sb_at example_h example_blank_dev (int (SB_START example_h)))
            \<noteq> bcache_magic example_h"
      by (simp add: example_blank_sb example_magic_nonzero)
    show "\<forall>j. 1 \<le> j \<and> j < 0 \<longrightarrow> 0 \<le> SB_OFFSET example_h j
            \<and> nat (SB_OFFSET example_h j) + sizeof_sb example_h \<le> dev_size example_blank_dev"
      by simp
    show "\<not> (if (100 :: 64 word) \<noteq> word_of_int (BDEV_DATA_START_DEFAULT example_h)
              then 100 else 0) < required_data_offset example_h 0"
      by (simp add: example_required example_h_simps c_int_def)
  qed
  then obtain dev' where w: "write_sb example_h example_gen False False example_blank_dev 1 1024
             False False False 0 100 1 True 2 False 0 2 = Some (None, dev', 2)"
    by auto
  from write_sb_backing_log [OF example_versions_ok w] obtain sb where
    "wlog dev' = wlog example_blank_dev @ header_log example_h False False @
            map (\<lambda>j. (copy_offset example_h j, sb_bytes example_h (copy_sb example_h example_gen sb 2 j)))
              [0 ..< Suc (nat (0 - 1))]"
    by blast
  then have "map (\<lambda>(off, bs). (off, length bs)) (wlog dev') = [(0, 4096), (4096, 2256)]"
    by (simp add: example_blank_dev_def header_log_def copy_offset_def example_h_simps
        length_example_sb_bytes)
  with w show ?thesis by (intro exI [of _ dev']) simp
qed

text \<open>Zeroing the journal leaves every byte below the range it zeroes as it was.\<close>

lemma chunk_advance:
  fixes off e len :: "64 word"
  assumes "off < e" and "len \<le> e - off"
  shows "unat (off + len) = unat off + unat len" and "unat off + unat len \<le> unat e"
proof -
  have "off \<le> e" using assms(1) by simp
  then have "unat (e - off) = unat e - unat off" by (rule unat_sub)
  moreover have "unat len \<le> unat (e - off)" using assms(2) by (simp add: word_le_nat_alt)
  moreover have "unat off < unat e" using assms(1) by (simp add: word_less_nat_alt)
  ultimately show le: "unat off + unat len \<le> unat e" by linarith
  have "unat e < 2 ^ LENGTH(64)" by (rule unsigned_less)
  with le have "unat off + unat len < 2 ^ LENGTH(64)" by linarith
  then show "unat (off + len) = unat off + unat len"
    by (simp only: unat_add_lem)
qed

lemma sint_nonneg_unat:
  fixes x :: "64 word"
  assumes "0 \<le> sint x"
  shows "nat (sint x) = unat x"
proof -
  have s: "sint x = signed_take_bit 63 (uint x)"
    by (simp add: sint_uint)
  have "uint x < 2 ^ 63"
  proof (rule ccontr)
    assume "\<not> uint x < 2 ^ 63"
    then have "(2::int) ^ 63 \<le> uint x" by simp
    then have "signed_take_bit 63 (uint x) \<le> uint x - 2 ^ Suc 63"
      by (rule signed_take_bit_int_less_eq)
    then have "sint x \<le> uint x - 2 ^ Suc 63"
      by (simp only: s)
    moreover have "uint x < 2 ^ Suc 63"
      using uint_bounded [of x] by simp
    ultimately show False using assms by linarith
  qed
  moreover have "0 \<le> uint x" by simp
  ultimately have "signed_take_bit 63 (uint x) = uint x"
    by (intro signed_take_bit_int_eq_self) linarith+
  then have "sint x = uint x"
    by (simp only: s)
  then show ?thesis by simp
qed

lemma zero_range_frame_step:
  fixes off e :: "64 word"
  assumes ih: "\<And>H dev off e y. zr H dev off e = Some y \<Longrightarrow>
                 dev_size (snd y) = dev_size dev
                 \<and> (\<forall>a < unat off. contents (snd y) a = contents dev a)"
    and body: "(if off < e
                then case pwrite dev
                       (replicate (unat (min (e - off) (word_of_nat (SB_START H)))) 0)
                       (sint off) of
                     None \<Rightarrow> Some (Some Write_error, dev)
                   | Some dev' \<Rightarrow>
                       zr H dev' (off + min (e - off) (word_of_nat (SB_START H))) e
                else Some (None, dev)) = Some y"
  shows "dev_size (snd y) = dev_size dev
       \<and> (\<forall>a < unat off. contents (snd y) a = contents dev a)"
proof (cases "off < e")
  case False
  with body show ?thesis by auto
next
  case True
  define len where "len = min (e - off) (word_of_nat (SB_START H))"
  show ?thesis
  proof (cases "pwrite dev (replicate (unat len) 0) (sint off)")
    case None
    with body True show ?thesis by (auto simp: len_def)
  next
    case (Some d1)
    then have rec: "zr H d1 (off + len) e = Some y"
      using body True by (simp add: len_def)
    have ih1: "dev_size (snd y) = dev_size d1"
      "\<forall>a < unat (off + len). contents (snd y) a = contents d1 a"
      using ih [OF rec] by simp_all
    have nn: "0 \<le> sint off" by (rule pwrite_Some(2) [OF Some])
    have d1: "d1 = dev\<lparr> contents := blit (contents dev) (unat off) (replicate (unat len) 0),
                 wlog := wlog dev @ [(unat off, replicate (unat len) 0)] \<rparr>"
      using pwrite_Some(1) [OF Some] by (simp add: sint_nonneg_unat [OF nn])
    have "len \<le> e - off" by (simp add: len_def)
    from chunk_advance(1) [OF True this]
    have adv: "unat off \<le> unat (off + len)" by simp
    have "contents (snd y) a = contents dev a" if "a < unat off" for a
    proof -
      have "contents (snd y) a = contents d1 a" using ih1(2) that adv by simp
      also have "\<dots> = contents dev a" using that by (simp add: d1 blit_def)
      finally show ?thesis .
    qed
    then show ?thesis using ih1(1) by (simp add: d1)
  qed
qed

lemma zero_range_frame:
  assumes "zero_range H dev off end_off = Some (r, dev')"
  shows "dev_size dev' = dev_size dev
       \<and> (\<forall>a < unat off. contents dev' a = contents dev a)"
proof -
  have "dev_size (snd (r, dev')) = dev_size dev
       \<and> (\<forall>a < unat off. contents (snd (r, dev')) a = contents dev a)"
    by (rule zero_range.raw_induct [where P = "\<lambda>H dev off e y.
          dev_size (snd y) = dev_size dev
          \<and> (\<forall>a < unat off. contents (snd y) a = contents dev a)", OF _ assms])
      (rule zero_range_frame_step)
  then show ?thesis by simp
qed

lemma zero_journal_frame:
  assumes "zero_journal H sb dev i end_i = Some (r, dev')"
    and "\<forall>j. i \<le> j \<and> j < end_i \<longrightarrow> lim \<le> unat (bucket_to_offset H sb j)"
  shows "dev_size dev' = dev_size dev \<and> (\<forall>a < lim. contents dev' a = contents dev a)"
  using assms
proof (induction H sb dev i end_i rule: zero_journal.induct)
  case (1 H sb dev i end_i)
  show ?case
  proof (cases "i < end_i")
    case False
    with "1.prems"(1) show ?thesis by simp
  next
    case True
    from "1.prems"(1) True obtain r1 d1 where
      z: "zero_range H dev (bucket_to_offset H sb i) (bucket_to_offset H sb (i + 1))
            = Some (r1, d1)"
      by (cases "zero_range H dev (bucket_to_offset H sb i) (bucket_to_offset H sb (i + 1))")
        auto
    have f1: "dev_size d1 = dev_size dev"
      "\<forall>a < unat (bucket_to_offset H sb i). contents d1 a = contents dev a"
      using zero_range_frame [OF z] by simp_all
    have "lim \<le> unat (bucket_to_offset H sb i)"
      using "1.prems"(2) True by simp
    then have f1': "\<forall>a < lim. contents d1 a = contents dev a"
      using f1(2) by simp
    show ?thesis
    proof (cases r1)
      case (Some e)
      then have "dev' = d1"
        using "1.prems"(1) True z by simp
      then show ?thesis using f1(1) f1' by simp
    next
      case None
      then have rest: "zero_journal H sb d1 (i + 1) end_i = Some (r, dev')"
        using "1.prems"(1) True z by simp
      have "\<forall>j. i + 1 \<le> j \<and> j < end_i \<longrightarrow> lim \<le> unat (bucket_to_offset H sb j)"
        using "1.prems"(2) by simp
      from "1.IH" [OF True z _ None rest this]
      have "dev_size dev' = dev_size d1 \<and> (\<forall>a < lim. contents dev' a = contents d1 a)"
        by simp
      then show ?thesis using f1(1) f1' by simp
    qed
  qed
qed

lemma sb_at_cong:
  assumes "\<forall>a. off \<le> a \<and> a < off + sizeof_sb H \<longrightarrow> contents d a = contents d' a"
  shows "sb_at H d (int off) = sb_at H d' (int off)"
proof -
  have "read_bytes (contents d) off (sizeof_sb H) = read_bytes (contents d') off (sizeof_sb H)"
    using assms by (simp add: read_bytes_def)
  then show ?thesis by (simp add: sb_at_def)
qed

lemma write_marker_size:
  "write_marker alc skip dev = Some dev' \<Longrightarrow> dev_size dev' = dev_size dev"
  by (auto simp: write_marker_def pwrite_def split: if_splits)

lemma write_primary_readback:
  assumes "layout_sized H" and "layout_faithful H"
    and "write_primary H alc skip dev sb = (None, dev3)"
  shows "sb_at H dev3 (int (SB_START H)) = sb" and "dev_size dev3 = dev_size dev"
proof -
  from assms(3) obtain dev1 where
    w1: "pwrite dev (replicate (SB_START H) 0) 0 = Some dev1"
    by (cases "pwrite dev (replicate (SB_START H) 0) 0") (simp_all add: write_primary_def)
  from assms(3) w1 obtain dev2 where
    w2: "write_marker alc skip dev1 = Some dev2"
    by (cases "write_marker alc skip dev1") (simp_all add: write_primary_def)
  from assms(3) w1 w2 have
    w3: "pwrite dev2 (sb_bytes H sb) (int (SB_START H)) = Some dev3"
    by (cases "pwrite dev2 (sb_bytes H sb) (int (SB_START H))") (simp_all add: write_primary_def)
  have len: "length (sb_bytes H sb) = sizeof_sb H"
    using assms(1) by (simp add: layout_sized_def)
  have "contents dev3 = blit (contents dev2) (SB_START H) (sb_bytes H sb)"
    using pwrite_Some(1) [OF w3] by simp
  then have "read_bytes (contents dev3) (SB_START H) (sizeof_sb H) = sb_bytes H sb"
    by (simp add: read_bytes_blit_same len)
  then show "sb_at H dev3 (int (SB_START H)) = sb"
    using assms(2) by (simp add: sb_at_def layout_faithful_def)
  show "dev_size dev3 = dev_size dev"
    using pwrite_size [OF w1] write_marker_size [OF w2] pwrite_size [OF w3] by simp
qed

text \<open>A cache-device format that returns leaves the struct it built at \<open>SB_START\<close>.\<close>

lemma sb_cache_Inr:
  assumes "sb_cache H sb0 nblocks discard pol = Inr sb1"
  shows "block_size sb1 = block_size sb0" "bucket_size sb1 = bucket_size sb0"
    "uuid sb1 = uuid sb0" "set_uuid sb1 = set_uuid sb0" "magic sb1 = magic sb0"
    "version sb1 = version sb0"
    "nbuckets sb1 = nblocks div ucast (bucket_size sb0)"
    "bucket_size sb0 \<noteq> 0"
    "first_bucket sb1 = word_of_int (23 div uint (bucket_size sb0) + 1)"
    "\<not> nbuckets sb1 < 128"
  using assms by (auto simp: sb_cache_def Let_def split: if_splits)

lemma build_sb_cache:
  assumes "versions_ok H"
    and "build_sb H dev bs bks writeback discard pol data_offset_arg su False bu dirty sb_num
           = Inr sb"
  shows "block_size sb = ucast bs" "bucket_size sb = ucast bks"
    "uuid sb = bu" "set_uuid sb = su"
    "nbuckets sb = getblocks dev div ucast (bucket_size sb)"
    "bucket_size sb \<noteq> 0"
    "first_bucket sb = word_of_int (23 div uint (bucket_size sb) + 1)"
    "\<not> SB_IS_BDEV H (version sb)"
proof -
  define sb0 where "sb0 = sb_init H False su bu bs bks"
  have ver0: "version sb0 = BCACHE_SB_VERSION_CDEV H"
    by (simp add: sb0_def sb_init_def)
  then have v0: "\<not> SB_IS_BDEV H (version sb0)"
    using assms(1) by (simp add: versions_ok_def)
  from assms(2) obtain sb1 where
    sb1: "sb_cache H sb0 (getblocks dev) discard pol = Inr sb1"
    and sb: "sb = sb1\<lparr> csum := csum_set H sb1 \<rparr>"
    by (cases "sb_cache H sb0 (getblocks dev) discard pol")
      (auto simp: build_sb_def Let_def v0 sb0_def [symmetric])
  note f = sb_cache_Inr [OF sb1]
  have i: "block_size sb0 = ucast bs" "bucket_size sb0 = ucast bks" "uuid sb0 = bu"
    "set_uuid sb0 = su"
    by (simp_all add: sb0_def sb_init_def)
  show "block_size sb = ucast bs" "bucket_size sb = ucast bks" "uuid sb = bu" "set_uuid sb = su"
    using f(1-4) i by (simp_all add: sb)
  show "nbuckets sb = getblocks dev div ucast (bucket_size sb)"
    using f(7) f(2) by (simp add: sb)
  show "bucket_size sb \<noteq> 0"
    using f(8) f(2) by (simp add: sb)
  show "first_bucket sb = word_of_int (23 div uint (bucket_size sb) + 1)"
    using f(9) f(2) by (simp add: sb)
  show "\<not> SB_IS_BDEV H (version sb)"
    using f(6) v0 by (simp add: sb)
qed

lemma c_int_less: "c_int x < 2 ^ 31"
  using sint_lt [of "word_of_int x :: 32 word"] by (simp add: c_int_def)

lemma write_sb_cache_readback:
  assumes "layout_sized H" and "layout_faithful H" and "versions_ok H"
    and "journal_clear_of_sb H"
    and "write_sb H gen alc skip dev bs bks writeback discard wipe_bcache pol
           data_offset_arg su False bu dirty sb_num k = Some (None, dev', k')"
  shows "\<exists>sb. build_sb H dev bs bks writeback discard pol data_offset_arg su False bu dirty
                 sb_num = Inr sb
            \<and> sb_at H dev' (int (SB_START H)) = sb"
    and "dev_size dev' = dev_size dev"
proof -
  from write_sb_returns [OF assms(5)] obtain sb dev3 where
    b: "build_sb H dev bs bks writeback discard pol data_offset_arg su False bu dirty sb_num
          = Inr sb"
    and wp: "write_primary H alc skip dev sb = (None, dev3)"
    and wr: "write_rest H gen sb dev3 sb_num k = Some (None, dev', k')"
    by blast
  note f = build_sb_cache [OF assms(3) b]
  define end_i where "end_i = c_int (uint (min (nbuckets sb)
                                 (ucast (first_bucket sb) + SB_JOURNAL_BUCKETS H)))"
  have zj: "zero_journal H sb dev3 (uint (first_bucket sb)) end_i = Some (None, dev')"
    using wr f(8) by (auto simp: write_rest_def end_i_def)
  have "\<forall>j. uint (first_bucket sb) \<le> j \<and> j < end_i
          \<longrightarrow> SB_START H + sizeof_sb H \<le> unat (bucket_to_offset H sb j)"
  proof (intro allI impI)
    fix j assume j: "uint (first_bucket sb) \<le> j \<and> j < end_i"
    have "end_i < 2 ^ 31" unfolding end_i_def by (rule c_int_less)
    with j have "j < 2 ^ 31" by simp
    with j f(6,7) assms(4) show "SB_START H + sizeof_sb H \<le> unat (bucket_to_offset H sb j)"
      unfolding journal_clear_of_sb_def by blast
  qed
  from zero_journal_frame [OF zj this]
  have fr: "dev_size dev' = dev_size dev3"
    "\<forall>a < SB_START H + sizeof_sb H. contents dev' a = contents dev3 a"
    by simp_all
  have "sb_at H dev' (int (SB_START H)) = sb_at H dev3 (int (SB_START H))"
    by (rule sb_at_cong) (use fr(2) in simp)
  then have "sb_at H dev' (int (SB_START H)) = sb"
    using write_primary_readback(1) [OF assms(1,2) wp] by simp
  with b show "\<exists>sb. build_sb H dev bs bks writeback discard pol data_offset_arg su False bu dirty
                 sb_num = Inr sb
            \<and> sb_at H dev' (int (SB_START H)) = sb"
    by blast
  show "dev_size dev' = dev_size dev"
    using fr(1) write_primary_readback(2) [OF assms(1,2) wp] by simp
qed

text \<open>With a non-empty buffer of zeroes and buckets that lie within the device, zeroing
  the journal ends and returns.\<close>

lemma sint_small:
  fixes x :: "64 word"
  assumes "unat x < 2 ^ 63"
  shows "sint x = int (unat x)"
proof -
  have "int (unat x) < int (2 ^ 63)"
    using assms by (simp only: of_nat_less_iff)
  then have "uint x < 2 ^ 63" by simp
  moreover have "0 \<le> uint x" by simp
  ultimately have "signed_take_bit 63 (uint x) = uint x"
    by (intro signed_take_bit_int_eq_self) linarith+
  then show ?thesis by (simp add: sint_uint)
qed

lemma zero_range_succeeds:
  assumes "word_of_nat (SB_START H) \<noteq> (0 :: 64 word)"
    and "unat e \<le> dev_size dev" and "unat e < 2 ^ 63"
  shows "\<exists>dev'. zero_range H dev off e = Some (None, dev') \<and> dev_size dev' = dev_size dev"
  using assms(2)
proof (induction "unat (e - off)" arbitrary: off dev rule: less_induct)
  case less
  show ?case
  proof (cases "off < e")
    case False
    then show ?thesis by (subst zero_range.simps) simp
  next
    case True
    define len where "len = min (e - off) (word_of_nat (SB_START H))"
    have le: "len \<le> e - off" by (simp add: len_def)
    have "e - off \<noteq> 0" using True by simp
    then have lnz: "len \<noteq> 0" using assms(1) by (simp add: len_def min_def)
    note adv = chunk_advance [OF True le]
    have offs: "unat off < 2 ^ 63"
      using True assms(3) by (simp add: word_less_nat_alt)
    have so: "sint off = int (unat off)" by (rule sint_small [OF offs])
    have fit: "0 \<le> sint off" "nat (sint off) + length (replicate (unat len) (0::byte))
                  \<le> dev_size dev"
      using so adv(2) less.prems by simp_all
    define d1 where "d1 = dev\<lparr> contents := blit (contents dev) (nat (sint off))
                                     (replicate (unat len) 0),
                 wlog := wlog dev @ [(nat (sint off), replicate (unat len) 0)] \<rparr>"
    have w: "pwrite dev (replicate (unat len) 0) (sint off) = Some d1"
      unfolding d1_def by (rule pwrite_fits [OF fit])
    have sz: "dev_size d1 = dev_size dev" by (simp add: d1_def)
    have "off + len \<le> e"
      using adv by (simp add: word_le_nat_alt)
    then have "unat (e - (off + len)) = unat e - unat (off + len)"
      by (rule unat_sub)
    moreover have "unat (e - off) = unat e - unat off"
      using True by (intro unat_sub) simp
    moreover have "0 < unat len" using lnz by (simp add: unat_gt_0)
    ultimately have dec: "unat (e - (off + len)) < unat (e - off)"
      using adv by linarith
    have "unat e \<le> dev_size d1" using less.prems sz by simp
    from less.hyps [OF dec this] obtain dev' where
      r: "zero_range H d1 (off + len) e = Some (None, dev')" and s: "dev_size dev' = dev_size d1"
      by blast
    have "zero_range H dev off e = zero_range H d1 (off + len) e"
      using True w by (subst zero_range.simps) (simp add: len_def)
    then show ?thesis using r s sz by simp
  qed
qed

lemma zero_journal_succeeds:
  assumes "word_of_nat (SB_START H) \<noteq> (0 :: 64 word)"
    and "\<forall>j. i \<le> j \<and> j < end_i \<longrightarrow> unat (bucket_to_offset H sb (j + 1)) \<le> dev_size dev
            \<and> unat (bucket_to_offset H sb (j + 1)) < 2 ^ 63"
  shows "\<exists>dev'. zero_journal H sb dev i end_i = Some (None, dev') \<and> dev_size dev' = dev_size dev"
  using assms
proof (induction H sb dev i end_i rule: zero_journal.induct)
  case (1 H sb dev i end_i)
  show ?case
  proof (cases "i < end_i")
    case False
    then show ?thesis by simp
  next
    case True
    have "unat (bucket_to_offset H sb (i + 1)) \<le> dev_size dev"
      "unat (bucket_to_offset H sb (i + 1)) < 2 ^ 63"
      using "1.prems"(2) True by simp_all
    from zero_range_succeeds [OF "1.prems"(1) this] obtain d1 where
      z: "zero_range H dev (bucket_to_offset H sb i) (bucket_to_offset H sb (i + 1))
            = Some (None, d1)"
      and sz: "dev_size d1 = dev_size dev"
      by blast
    have "\<forall>j. i + 1 \<le> j \<and> j < end_i \<longrightarrow> unat (bucket_to_offset H sb (j + 1)) \<le> dev_size d1
            \<and> unat (bucket_to_offset H sb (j + 1)) < 2 ^ 63"
      using "1.prems"(2) sz by simp
    from "1.IH" [OF True z _ _ "1.prems"(1) this] obtain dev' where
      "zero_journal H sb d1 (i + 1) end_i = Some (None, dev')" "dev_size dev' = dev_size d1"
      by auto
    then show ?thesis using True z sz by simp
  qed
qed

lemma write_sb_cache_succeeds:
  assumes "versions_ok H" and "layout_sized H"
    and "word_of_nat (SB_START H) \<noteq> (0 :: 64 word)"
    and "excl_open_ok dev" and "probe_setup_ok dev" and "blkid_do_probe dev \<noteq> 0"
    and "wipe_bcache \<or> magic (sb_at H dev (int (SB_START H))) \<noteq> bcache_magic H"
    and "10 \<le> dev_size dev" and "SB_START H + sizeof_sb H \<le> dev_size dev"
    and "build_sb H dev bs bks writeback discard pol data_offset_arg su False bu dirty sb_num
           = Inr sb"
    and "\<forall>j. uint (first_bucket sb) \<le> j
             \<and> j < c_int (uint (min (nbuckets sb)
                                   (ucast (first_bucket sb) + SB_JOURNAL_BUCKETS H)))
           \<longrightarrow> unat (bucket_to_offset H sb (j + 1)) \<le> dev_size dev
             \<and> unat (bucket_to_offset H sb (j + 1)) < 2 ^ 63"
  shows "\<exists>dev'. write_sb H gen alc skip dev bs bks writeback discard wipe_bcache pol
                  data_offset_arg su False bu dirty sb_num k = Some (None, dev', k)"
proof -
  have oc: "open_checks H dev wipe_bcache = None"
    by (rule open_checks_passes [OF assms(4,9,7,5,6)])
  have v: "\<not> SB_IS_BDEV H (version sb)"
    by (rule build_sb_cache(8) [OF assms(1,10)])
  obtain dev3 where wp: "write_primary H alc skip dev sb = (None, dev3)"
    and s3: "dev_size dev3 = dev_size dev"
    using write_primary_succeeds [OF assms(2,8,9)] by blast
  have "\<forall>j. uint (first_bucket sb) \<le> j
             \<and> j < c_int (uint (min (nbuckets sb)
                                   (ucast (first_bucket sb) + SB_JOURNAL_BUCKETS H)))
           \<longrightarrow> unat (bucket_to_offset H sb (j + 1)) \<le> dev_size dev3
             \<and> unat (bucket_to_offset H sb (j + 1)) < 2 ^ 63"
    using assms(11) s3 by simp
  from zero_journal_succeeds [OF assms(3) this] obtain dev' where
    "zero_journal H sb dev3 (uint (first_bucket sb))
       (c_int (uint (min (nbuckets sb) (ucast (first_bucket sb) + SB_JOURNAL_BUCKETS H))))
     = Some (None, dev')"
    by blast
  then show ?thesis
    using oc assms(10) wp v by (simp add: write_sb_def write_rest_def)
qed

text \<open>The secondary copies leave every byte outside their extents as it was.\<close>

lemma write_secondaries_frame:
  assumes "layout_sized H"
    and "write_secondaries H gen sb dev k i n = (r, dev', k')"
    and "\<forall>j. i \<le> j \<and> j < n \<and> 0 \<le> SB_OFFSET H j
           \<longrightarrow> \<not> (nat (SB_OFFSET H j) \<le> a \<and> a < nat (SB_OFFSET H j) + sizeof_sb H)"
  shows "contents dev' a = contents dev a"
  using assms
proof (induction H gen sb dev k i n rule: write_secondaries.induct)
  case (1 H gen sb dev k i n)
  show ?case
  proof (cases "i < n")
    case False
    with "1.prems"(2) show ?thesis by simp
  next
    case True
    define s1 where "s1 = sb\<lparr> offset := word_of_int (SB_SECTOR H), uuid := gen k,
                              set_uuid := gen (k + 1) \<rparr>"
    define s2 where "s2 = s1\<lparr> csum := csum_set H s1 \<rparr>"
    show ?thesis
    proof (cases "pwrite dev (sb_bytes H s2) (SB_OFFSET H i)")
      case None
      then have "dev' = dev"
        using "1.prems"(2) True by (simp add: Let_def s1_def s2_def)
      then show ?thesis by simp
    next
      case (Some d1)
      then have rest: "write_secondaries H gen s2 d1 (k + 2) (i + 1) n = (r, dev', k')"
        using "1.prems"(2) True by (simp add: Let_def s1_def s2_def)
      have "\<forall>j. i + 1 \<le> j \<and> j < n \<and> 0 \<le> SB_OFFSET H j
           \<longrightarrow> \<not> (nat (SB_OFFSET H j) \<le> a \<and> a < nat (SB_OFFSET H j) + sizeof_sb H)"
        using "1.prems"(3) by simp
      from "1.IH" [OF True s1_def s2_def Some "1.prems"(1) rest this]
      have a: "contents dev' a = contents d1 a" .
      have len: "length (sb_bytes H s2) = sizeof_sb H"
        using "1.prems"(1) by (simp add: layout_sized_def)
      have nn: "0 \<le> SB_OFFSET H i" by (rule pwrite_Some(2) [OF Some])
      then have "\<not> (nat (SB_OFFSET H i) \<le> a \<and> a < nat (SB_OFFSET H i) + sizeof_sb H)"
        using "1.prems"(3) True by simp
      then have "contents d1 a = contents dev a"
        using pwrite_Some(1) [OF Some] by (simp add: blit_outside len)
      with a show ?thesis by simp
    qed
  qed
qed

lemma write_sb_backing_readback:
  assumes "layout_sized H" and "layout_faithful H" and "versions_ok H"
    and "copies_clear_of_sb H"
    and "write_sb H gen alc skip dev bs bks writeback discard wipe_bcache pol
           data_offset_arg su True bu dirty sb_num k = Some (None, dev', k')"
  shows "\<exists>sb. build_sb H dev bs bks writeback discard pol data_offset_arg su True bu dirty
                 sb_num = Inr sb
            \<and> sb_at H dev' (int (SB_START H)) = sb"
proof -
  from write_sb_returns [OF assms(5)] obtain sb dev3 where
    b: "build_sb H dev bs bks writeback discard pol data_offset_arg su True bu dirty sb_num
          = Inr sb"
    and wp: "write_primary H alc skip dev sb = (None, dev3)"
    and wr: "write_rest H gen sb dev3 sb_num k = Some (None, dev', k')"
    by blast
  have v: "SB_IS_BDEV H (version sb)"
    by (rule build_sb_backing(2) [OF assms(3) b])
  have w4: "write_secondaries H gen sb dev3 k 1 sb_num = (None, dev', k')"
    using wr v by (simp add: write_rest_def)
  have "contents dev' a = contents dev3 a"
    if a: "SB_START H \<le> a \<and> a < SB_START H + sizeof_sb H" for a
  proof (rule write_secondaries_frame [OF assms(1) w4])
    show "\<forall>j. 1 \<le> j \<and> j < sb_num \<and> 0 \<le> SB_OFFSET H j
           \<longrightarrow> \<not> (nat (SB_OFFSET H j) \<le> a \<and> a < nat (SB_OFFSET H j) + sizeof_sb H)"
    proof (intro allI impI)
      fix j assume j: "1 \<le> j \<and> j < sb_num \<and> 0 \<le> SB_OFFSET H j"
      then have "SB_START H + sizeof_sb H \<le> nat (SB_OFFSET H j)
            \<or> nat (SB_OFFSET H j) + sizeof_sb H \<le> SB_START H"
        using assms(4) unfolding copies_clear_of_sb_def by blast
      with a show "\<not> (nat (SB_OFFSET H j) \<le> a \<and> a < nat (SB_OFFSET H j) + sizeof_sb H)"
        by linarith
    qed
  qed
  then have "sb_at H dev' (int (SB_START H)) = sb_at H dev3 (int (SB_START H))"
    by (intro sb_at_cong) simp
  then have "sb_at H dev' (int (SB_START H)) = sb"
    using write_primary_readback(1) [OF assms(1,2) wp] by simp
  with b show ?thesis by blast
qed

section \<open>Properties of main\<close>

lemma handle_opt_dirty:
  assumes "handle_opt H parse st x = Inr st'"
  shows "m_dirty st' = (m_dirty st \<or> (\<exists>a. x = Opt_v a))"
  using assms by (cases x) (auto split: sum.splits option.splits if_splits)

lemma parse_opts_dirty:
  assumes "parse_opts H parse st opts = Inr st'"
  shows "m_dirty st' = (m_dirty st \<or> (\<exists>a. Opt_v a \<in> set opts))"
  using assms
proof (induction opts arbitrary: st)
  case Nil
  then show ?case by simp
next
  case (Cons x xs)
  from Cons.prems obtain st1 where
    h: "handle_opt H parse st x = Inr st1" and r: "parse_opts H parse st1 xs = Inr st'"
    by (auto split: sum.splits)
  show ?case
    using Cons.IH [OF r] handle_opt_dirty [OF h] by auto
qed

lemma main_checks_keeps:
  assumes "main_checks H w st0 = Inr st"
  shows "m_dirty st = m_dirty st0" "m_set_uuid st = m_set_uuid st0"
    "m_bdev_uuid st = m_bdev_uuid st0" "m_sb_num st = m_sb_num st0"
    "m_bucket_size st = m_bucket_size st0" "m_block_size st \<le> m_bucket_size st"
    "m_cache_devices st = m_cache_devices st0" "m_backing_devices st = m_backing_devices st0"
    "m_sb_idx st = m_sb_idx st0"
  using assms
  by (auto simp: main_checks_def split: if_splits sum.splits)

lemma build_sb_backing_flags:
  assumes "versions_ok H" and "bdev_state_ok H"
    and "build_sb H dev bs bks writeback discard pol data_offset_arg su True bu dirty sb_num
           = Inr sb"
  shows "BDEV_STATE H (flags sb) = (if dirty then BDEV_STATE_DIRTY H else 0)"
proof -
  from build_sb_backing(1) [OF assms(1,3)] obtain sb1 where
    sb1: "sb_backing H (sb_init H True su bu bs bks) writeback dirty data_offset_arg sb_num
            = Inr sb1"
    and sb: "sb = sb1\<lparr> csum := csum_set H sb1 \<rparr>"
    by blast
  have f0: "flags (sb_init H True su bu bs bks) = 0"
    by (simp add: sb_init_def zero_sb_def)
  show ?thesis
    using assms(2) unfolding sb
    by (simp add: sb_backing_Inr(6) [OF sb1] f0 bdev_state_ok_def)
qed

lemma example_parse_v:
  "parse_opts example_h example_uuid_parse (main_init example_gen)
     [Opt_B, Opt_v ''00000000-0000-0000-0000-00000000002a'', Opt_arg ''/dev/sdb'']
   = Inr example_vars_v"
  by (simp add: example_uuid_parse_def main_init_def example_vars_v_def)

lemma example_checks_v:
  "main_checks example_h example_world example_vars_v
     = Inr (example_vars_v\<lparr> m_block_size := 1, m_data_offset := 24 \<rparr>)"
  by (simp add: main_checks_def example_vars_v_def main_init_def get_blocksize_def
      example_world_def example_blank_dev_def example_h_def)

lemma example_format_v:
  "\<exists>dev'. main_write_sb example_h example_gen
            (example_vars_v\<lparr> m_block_size := 1, m_data_offset := 24 \<rparr>) True 1
            example_blank_dev 2 = Some (None, dev', 2)"
proof -
  have "\<exists>dev'. write_sb example_h example_gen False False example_blank_dev 1 1024
             False False False 0 24 (example_gen 0) True 42 True 1 2
           = Some (None, dev', 2 + 2 * nat (1 - 1))"
  proof (rule write_sb_backing_succeeds [OF example_versions_ok example_layout_sized])
    show "excl_open_ok example_blank_dev" "probe_setup_ok example_blank_dev"
      "blkid_do_probe example_blank_dev \<noteq> 0" "10 \<le> dev_size example_blank_dev"
      "SB_START example_h + sizeof_sb example_h \<le> dev_size example_blank_dev"
      by (simp_all add: example_blank_dev_def example_h_simps)
    show "False \<or> magic (sb_at example_h example_blank_dev (int (SB_START example_h)))
            \<noteq> bcache_magic example_h"
      by (simp add: example_blank_sb example_magic_nonzero)
    show "\<forall>j. 1 \<le> j \<and> j < 1 \<longrightarrow> 0 \<le> SB_OFFSET example_h j
            \<and> nat (SB_OFFSET example_h j) + sizeof_sb example_h \<le> dev_size example_blank_dev"
      by simp
    show "\<not> (if (24 :: 64 word) \<noteq> word_of_int (BDEV_DATA_START_DEFAULT example_h)
              then 24 else 0) < required_data_offset example_h 1"
      by (simp add: example_required example_h_simps c_int_def)
  qed
  then show ?thesis
    by (simp add: main_write_sb_def example_vars_v_def main_init_def)
qed

text \<open>
  C9. The dirty flag of \<open>main\<close> is set exactly when a \<open>-v\<close> option was given, whatever
  else was asked. Every record that a backing-device format of that run writes (the
  primary copy and each secondary copy) then has \<open>BDEV_STATE_DIRTY\<close> in the state field
  of its flags; without \<open>-v\<close> the state field is zero.
\<close>

theorem C9_bdev_uuid_sets_dirty:
  assumes "versions_ok H" and "bdev_state_ok H"
    and "parse_opts H parse (main_init gen) opts = Inr st0"
    and "main_checks H w st0 = Inr st"
    and "main_write_sb H gen st True (m_sb_num st) dev k = Some (None, dev', k')"
  shows "m_dirty st = (\<exists>a. Opt_v a \<in> set opts)
     \<and> (\<exists>recs. length recs = Suc (nat (m_sb_num st - 1))
          \<and> wlog dev' = wlog dev
               @ header_log H (m_alcubierre_dev st) (m_skip_udev_register st)
               @ map (\<lambda>j. (copy_offset H j, sb_bytes H (recs ! j)))
                   [0 ..< Suc (nat (m_sb_num st - 1))]
          \<and> (\<forall>j < Suc (nat (m_sb_num st - 1)).
                BDEV_STATE H (flags (recs ! j))
                  = (if \<exists>a. Opt_v a \<in> set opts then BDEV_STATE_DIRTY H else 0)))"
proof -
  have d0: "m_dirty st0 = (\<exists>a. Opt_v a \<in> set opts)"
    using parse_opts_dirty [OF assms(3)] by (simp add: main_init_def)
  have d: "m_dirty st = (\<exists>a. Opt_v a \<in> set opts)"
    using main_checks_keeps(1) [OF assms(4)] d0 by simp
  note w = assms(5) [unfolded main_write_sb_def]
  from write_sb_backing_log [OF assms(1) w] obtain sb where
    b: "build_sb H dev (m_block_size st) (m_bucket_size st) (m_writeback st) (m_discard st)
          (m_cache_replacement_policy st) (m_data_offset st) (m_set_uuid st) True
          (m_bdev_uuid st) (m_dirty st) (m_sb_num st) = Inr sb"
    and lg: "wlog dev' = wlog dev
               @ header_log H (m_alcubierre_dev st) (m_skip_udev_register st)
               @ map (\<lambda>j. (copy_offset H j, sb_bytes H (copy_sb H gen sb k j)))
                   [0 ..< Suc (nat (m_sb_num st - 1))]"
    by blast
  define n where "n = Suc (nat (m_sb_num st - 1))"
  define recs where "recs = map (copy_sb H gen sb k) [0 ..< n]"
  have len: "length recs = n" by (simp add: recs_def)
  have nth: "recs ! j = copy_sb H gen sb k j" if "j < n" for j
    using that by (simp add: recs_def)
  have "map (\<lambda>j. (copy_offset H j, sb_bytes H (recs ! j))) [0 ..< n]
        = map (\<lambda>j. (copy_offset H j, sb_bytes H (copy_sb H gen sb k j))) [0 ..< n]"
    by (rule map_cong) (simp_all add: nth del: copy_sb.simps)
  then have log: "wlog dev' = wlog dev
               @ header_log H (m_alcubierre_dev st) (m_skip_udev_register st)
               @ map (\<lambda>j. (copy_offset H j, sb_bytes H (recs ! j))) [0 ..< n]"
    using lg by (simp add: n_def)
  have fl: "BDEV_STATE H (flags sb) = (if \<exists>a. Opt_v a \<in> set opts then BDEV_STATE_DIRTY H else 0)"
    using build_sb_backing_flags [OF assms(1,2) b] d by simp
  have st: "\<forall>j < n. BDEV_STATE H (flags (recs ! j))
                  = (if \<exists>a. Opt_v a \<in> set opts then BDEV_STATE_DIRTY H else 0)"
    using fl by (simp add: nth copy_sb_fields del: copy_sb.simps)
  from len log st have "\<exists>recs. length recs = n
          \<and> wlog dev' = wlog dev
               @ header_log H (m_alcubierre_dev st) (m_skip_udev_register st)
               @ map (\<lambda>j. (copy_offset H j, sb_bytes H (recs ! j))) [0 ..< n]
          \<and> (\<forall>j < n. BDEV_STATE H (flags (recs ! j))
                  = (if \<exists>a. Opt_v a \<in> set opts then BDEV_STATE_DIRTY H else 0))"
    by (intro exI [of _ recs]) (simp only: simp_thms)
  then show ?thesis
    using d unfolding n_def by simp
qed

theorem C9_bdev_uuid_sets_dirty_witness:
  "\<exists>dev' recs. main_write_sb example_h example_gen
            (example_vars_v\<lparr> m_block_size := 1, m_data_offset := 24 \<rparr>) True 1
            example_blank_dev 2 = Some (None, dev', 2)
     \<and> length recs = 1
     \<and> wlog dev' = header_log example_h False False @ [(4096, sb_bytes example_h (recs ! 0))]
     \<and> BDEV_STATE example_h (flags (recs ! 0)) = 2"
proof -
  obtain dev' where w: "main_write_sb example_h example_gen
            (example_vars_v\<lparr> m_block_size := 1, m_data_offset := 24 \<rparr>) True
            (m_sb_num (example_vars_v\<lparr> m_block_size := 1, m_data_offset := 24 \<rparr>))
            example_blank_dev 2 = Some (None, dev', 2)"
    using example_format_v by (auto simp: example_vars_v_def main_init_def)
  from C9_bdev_uuid_sets_dirty [OF example_versions_ok example_bdev_state_ok
      example_parse_v example_checks_v w]
  obtain recs where
    "length recs = 1"
    "wlog dev' = header_log example_h False False @ [(4096, sb_bytes example_h (recs ! 0))]"
    "BDEV_STATE example_h (flags (recs ! 0)) = 2"
    by (auto simp: example_vars_v_def main_init_def example_blank_dev_def copy_offset_def
        example_h_def)
  then show ?thesis
    using example_format_v w
    by (intro exI [of _ dev'] exI [of _ recs]) (simp add: example_vars_v_def main_init_def)
qed

text \<open>The sizes that \<open>main\<close> passes to \<open>write_sb\<close> fit the 16-bit members of the struct.\<close>

lemma unat_ucast_small:
  fixes w :: "'b::len word"
  assumes "unat w < 2 ^ LENGTH('c::len)"
  shows "unat (ucast w :: 'c word) = unat w"
  using assms by (simp add: unsigned_ucast_eq take_bit_nat_eq_self)

lemma ucast_16_back:
  fixes x :: "32 word"
  assumes "x \<le> 65535"
  shows "(ucast (ucast x :: 16 word) :: 32 word) = x"
    and "(ucast (ucast x :: 16 word) :: 64 word) = ucast x"
proof -
  have u: "unat x \<le> 65535" using assms by (simp add: word_le_nat_alt)
  have a: "unat (ucast x :: 16 word) = unat x"
    using u by (intro unat_ucast_small) simp
  have b: "unat (ucast (ucast x :: 16 word) :: 32 word) = unat (ucast x :: 16 word)"
    using a u by (intro unat_ucast_small) simp
  have c: "unat (ucast (ucast x :: 16 word) :: 64 word) = unat (ucast x :: 16 word)"
    using a u by (intro unat_ucast_small) simp
  have d: "unat (ucast x :: 64 word) = unat x"
    using u by (intro unat_ucast_small) simp
  show "(ucast (ucast x :: 16 word) :: 32 word) = x"
    using a b by (simp only: word_unat_eq_iff)
  show "(ucast (ucast x :: 16 word) :: 64 word) = ucast x"
    using a c d by (simp only: word_unat_eq_iff)
qed

lemma hatoi_validate_range:
  assumes "hatoi_validate s msg = Inr v"
  shows "v \<le> 65535" and "v \<noteq> 0"
proof -
  define v' where "v' = hatoi s div 512"
  from assms have le: "\<not> v' > USHRT_MAX" and nz: "v' \<noteq> 0" and v: "v = ucast v'"
    by (auto simp: hatoi_validate_def Let_def v'_def split: if_splits)
  have u: "unat v' \<le> 65535"
    using le by (simp add: USHRT_MAX_def word_less_nat_alt)
  then have uv: "unat v = unat v'"
    unfolding v by (intro unat_ucast_small) simp
  show "v \<le> 65535" using uv u by (simp add: word_le_nat_alt)
  have "unat v' \<noteq> 0" using nz by (simp add: unat_eq_0)
  then show "v \<noteq> 0" using uv by (metis unat_eq_0)
qed

lemma handle_opt_bucket:
  assumes "handle_opt H parse st x = Inr st'" and "m_bucket_size st \<le> 65535"
  shows "m_bucket_size st' \<le> 65535"
proof (cases x)
  case (Opt_b a)
  with assms(1) obtain v where "hatoi_validate a ''bucket size'' = Inr v"
    and "st' = st\<lparr> m_bucket_size := v \<rparr>"
    by (auto split: sum.splits)
  then show ?thesis using hatoi_validate_range(1) by simp
qed (use assms in \<open>auto split: sum.splits option.splits if_splits\<close>)

lemma parse_opts_bucket:
  assumes "parse_opts H parse st opts = Inr st'" and "m_bucket_size st \<le> 65535"
  shows "m_bucket_size st' \<le> 65535"
  using assms
proof (induction opts arbitrary: st)
  case Nil
  then show ?case by simp
next
  case (Cons x xs)
  from Cons.prems(1) obtain st1 where
    h: "handle_opt H parse st x = Inr st1" and r: "parse_opts H parse st1 xs = Inr st'"
    by (auto split: sum.splits)
  show ?case
    by (rule Cons.IH [OF r handle_opt_bucket [OF h Cons.prems(2)]])
qed

lemma main_sizes_in_range:
  assumes "parse_opts H parse (main_init gen) opts = Inr st0"
    and "main_checks H w st0 = Inr st"
  shows "m_bucket_size st \<le> 65535" and "m_block_size st \<le> 65535"
proof -
  have "m_bucket_size (main_init gen) \<le> 65535" by (simp add: main_init_def)
  from parse_opts_bucket [OF assms(1) this]
  show b: "m_bucket_size st \<le> 65535"
    using main_checks_keeps(5) [OF assms(2)] by simp
  show "m_block_size st \<le> 65535"
    using main_checks_keeps(6) [OF assms(2)] b by simp
qed

text \<open>The example header keeps the journal beyond the primary record.\<close>

lemma example_journal_clear: "journal_clear_of_sb example_h"
  unfolding journal_clear_of_sb_def
proof (intro allI impI)
  fix sb :: cache_sb and i :: int
  assume a: "bucket_size sb \<noteq> 0
            \<and> first_bucket sb = word_of_int (23 div uint (bucket_size sb) + 1)
            \<and> uint (first_bucket sb) \<le> i \<and> i < 2 ^ 31"
  define b where "b = uint (bucket_size sb)"
  have b1: "1 \<le> b"
  proof -
    have "uint (bucket_size sb) \<noteq> 0" using a by (simp add: uint_0_iff)
    moreover have "0 \<le> uint (bucket_size sb)" by simp
    ultimately show ?thesis unfolding b_def by linarith
  qed
  have b2: "b < 2 ^ 16" unfolding b_def using uint_bounded [of "bucket_size sb"] by simp
  have q: "0 \<le> 23 div b" "23 div b \<le> 23"
    using b1 zdiv_mono2 [of 23 1 b] by (simp_all add: pos_imp_zdiv_nonneg_iff)
  have "uint (word_of_int (23 div b + 1) :: 16 word) = 23 div b + 1"
    by (rule word_of_int_inverse [OF refl]) (use q in simp_all)
  moreover have "first_bucket sb = word_of_int (23 div b + 1)" "uint (first_bucket sb) \<le> i"
    using a unfolding b_def by blast+
  ultimately have fi: "23 div b + 1 \<le> i" by (simp only:)
  have m1: "b * (23 div b) + 23 mod b = 23" by simp
  have m2: "23 mod b < b" using b1 by simp
  have m3: "(23 div b + 1) * b = b * (23 div b) + b" by (simp add: algebra_simps)
  have "24 \<le> (23 div b + 1) * b"
    unfolding m3 using m1 m2 by linarith
  moreover have "(23 div b + 1) * b \<le> i * b"
    using fi b1 by (intro mult_right_mono) simp_all
  ultimately have ib: "24 \<le> i * b" by linarith
  have i0: "0 \<le> i" using fi q by linarith
  have "i * b \<le> 2 ^ 31 * 2 ^ 16"
    using a b2 i0 b1 by (intro mult_mono) simp_all
  then have ub: "i * b * 512 < 2 ^ 64" by (simp add: mult.commute)
  have "bucket_to_offset example_h sb i = word_of_int (i * b * 512)"
    by (simp add: example_h_def b_def)
  moreover have "uint (word_of_int (i * b * 512) :: 64 word) = i * b * 512"
    by (rule word_of_int_inverse [OF refl]) (use ub ib in simp_all)
  ultimately have "unat (bucket_to_offset example_h sb i) = nat (i * b * 512)"
    by (simp only: unat_eq_nat_uint)
  then show "SB_START example_h + sizeof_sb example_h \<le> unat (bucket_to_offset example_h sb i)"
    using ib by (simp add: example_h_simps)
qed

text \<open>
  C6. For a cache device that \<open>main\<close> formats and for which \<open>write_sb\<close> returns, the record
  read back at \<open>SB_START\<close> from the device as the call leaves it has the \<open>bucket_size\<close> and
  \<open>block_size\<close> that \<open>main\<close> passed, the set UUID that \<open>main\<close> passed, and a bucket count
  equal to the capacity of the device in 512-byte sectors, \<open>dev_size div 512\<close> as a
  \<open>uint64_t\<close>, divided by the bucket size. The format does not change the size of the
  device, and when the sector count fits 64 bits the bucket count is the quotient of
  the two natural numbers.
\<close>

theorem C6_cache_format_roundtrip:
  assumes "layout_sized H" and "layout_faithful H" and "versions_ok H"
    and "journal_clear_of_sb H"
    and "parse_opts H parse (main_init gen) opts = Inr st0"
    and "main_checks H w st0 = Inr st"
    and "main_write_sb H gen st False 1 dev k = Some (None, dev', k')"
  shows "ucast (bucket_size (sb_at H dev' (int (SB_START H)))) = m_bucket_size st
       \<and> ucast (block_size (sb_at H dev' (int (SB_START H)))) = m_block_size st
       \<and> set_uuid (sb_at H dev' (int (SB_START H))) = m_set_uuid st
       \<and> nbuckets (sb_at H dev' (int (SB_START H)))
           = word_of_nat (dev_size dev div 512) div ucast (m_bucket_size st)
       \<and> dev_size dev' = dev_size dev
       \<and> (dev_size dev div 512 < 2 ^ 64
            \<longrightarrow> unat (nbuckets (sb_at H dev' (int (SB_START H))))
                = dev_size dev div 512 div unat (m_bucket_size st))"
proof -
  note w = assms(7) [unfolded main_write_sb_def]
  from write_sb_cache_readback(1) [OF assms(1-4) w] obtain sb where
    b: "build_sb H dev (m_block_size st) (m_bucket_size st) (m_writeback st) (m_discard st)
          (m_cache_replacement_policy st) (m_data_offset st) (m_set_uuid st) False
          (m_bdev_uuid st) (m_dirty st) 1 = Inr sb"
    and r: "sb_at H dev' (int (SB_START H)) = sb"
    by blast
  note f = build_sb_cache [OF assms(3) b]
  note rng = main_sizes_in_range [OF assms(5,6)]
  have g: "dev_size dev' = dev_size dev"
    by (rule write_sb_cache_readback(2) [OF assms(1-4) w])
  have nb: "nbuckets sb = word_of_nat (dev_size dev div 512) div ucast (m_bucket_size st)"
    using f(2,5) ucast_16_back(2) [OF rng(1)] by (simp add: getblocks_def)
  have un: "unat (nbuckets sb) = dev_size dev div 512 div unat (m_bucket_size st)"
    if "dev_size dev div 512 < 2 ^ 64"
  proof -
    have "unat (word_of_nat (dev_size dev div 512) :: 64 word) = dev_size dev div 512"
      using that by (simp add: unat_of_nat)
    moreover have "unat (ucast (m_bucket_size st) :: 64 word) = unat (m_bucket_size st)"
    proof (rule unat_ucast_small)
      have "unat (m_bucket_size st) < 2 ^ 32"
        using unsigned_less [of "m_bucket_size st", where 'a = nat] by simp
      then show "unat (m_bucket_size st) < 2 ^ LENGTH(64)" by simp
    qed
    ultimately show ?thesis
      unfolding nb by (simp add: unat_div)
  qed
  show ?thesis
    unfolding r
    using f(1,2,4) ucast_16_back [OF rng(1)] ucast_16_back(1) [OF rng(2)] nb g un
    by simp
qed

lemma hatoi_validate_4k: "hatoi_validate ''4k'' ''bucket size'' = Inr 8"
  by code_simp

lemma example_parse_c:
  "parse_opts example_h example_uuid_parse (main_init example_gen)
     [Opt_C, Opt_b ''4k'', Opt_arg ''/dev/sdb'']
   = Inr example_vars_c"
  by (simp add: hatoi_validate_4k main_init_def example_vars_c_def)

lemma example_checks_c:
  "main_checks example_h example_world example_vars_c
     = Inr (example_vars_c\<lparr> m_block_size := 1, m_data_offset := 24 \<rparr>)"
  by (simp add: main_checks_def example_vars_c_def main_init_def get_blocksize_def
      example_world_def example_blank_dev_def example_h_def)

lemma example_getblocks: "getblocks example_blank_dev = 2048"
  by (simp add: getblocks_def example_blank_dev_def)

lemma example_build_c:
  "\<exists>sb. build_sb example_h example_blank_dev 1 8 False False 0 24 (example_gen 0) False
          (example_gen 1) False 1 = Inr sb"
  by (simp add: build_sb_def sb_init_def sb_cache_def Let_def example_h_simps zero_sb_def
      example_getblocks)

lemma example_format_c:
  "\<exists>dev'. main_write_sb example_h example_gen
            (example_vars_c\<lparr> m_block_size := 1, m_data_offset := 24 \<rparr>) False 1
            example_blank_dev 2 = Some (None, dev', 2)"
proof -
  obtain sb where b: "build_sb example_h example_blank_dev 1 8 False False 0 24 (example_gen 0)
          False (example_gen 1) False 1 = Inr sb"
    using example_build_c by blast
  note f = build_sb_cache [OF example_versions_ok b]
  have bs: "bucket_size sb = 8" using f(2) by simp
  have fb: "first_bucket sb = 3" using f(7) by (simp add: bs)
  have nb: "nbuckets sb = 256" using f(5) by (simp add: bs example_getblocks)
  have e: "c_int (uint (min (nbuckets sb) (ucast (first_bucket sb)
              + SB_JOURNAL_BUCKETS example_h))) = 256"
    by (simp add: nb fb c_int_def example_h_def)
  have j: "\<forall>j. uint (first_bucket sb) \<le> j
             \<and> j < c_int (uint (min (nbuckets sb)
                                   (ucast (first_bucket sb) + SB_JOURNAL_BUCKETS example_h)))
           \<longrightarrow> unat (bucket_to_offset example_h sb (j + 1)) \<le> dev_size example_blank_dev
             \<and> unat (bucket_to_offset example_h sb (j + 1)) < 2 ^ 63"
  proof (intro allI impI)
    fix j :: int
    assume "uint (first_bucket sb) \<le> j
             \<and> j < c_int (uint (min (nbuckets sb)
                                   (ucast (first_bucket sb) + SB_JOURNAL_BUCKETS example_h)))"
    then have r: "3 \<le> j" "j < 256" unfolding e by (simp_all add: fb)
    have "bucket_to_offset example_h sb (j + 1) = word_of_int ((j + 1) * 4096)"
      by (simp add: example_h_def bs)
    moreover have "uint (word_of_int ((j + 1) * 4096) :: 64 word) = (j + 1) * 4096"
      by (rule word_of_int_inverse [OF refl]) (use r in simp_all)
    ultimately have "unat (bucket_to_offset example_h sb (j + 1)) = nat ((j + 1) * 4096)"
      by (simp only: unat_eq_nat_uint)
    moreover have "(j + 1) * 4096 \<le> 1048576"
      using r by simp
    then have "nat ((j + 1) * 4096) \<le> 1048576"
      by (simp only: nat_le_iff)
    ultimately show "unat (bucket_to_offset example_h sb (j + 1)) \<le> dev_size example_blank_dev
             \<and> unat (bucket_to_offset example_h sb (j + 1)) < 2 ^ 63"
      by (simp add: example_blank_dev_def)
  qed
  have "\<exists>dev'. write_sb example_h example_gen False False example_blank_dev 1 8
             False False False 0 24 (example_gen 0) False (example_gen 1) False 1 2
           = Some (None, dev', 2)"
  proof (rule write_sb_cache_succeeds [OF example_versions_ok example_layout_sized _ _ _ _ _ _ _ b j])
    show "word_of_nat (SB_START example_h) \<noteq> (0 :: 64 word)"
      by (simp add: example_h_simps)
    show "excl_open_ok example_blank_dev" "probe_setup_ok example_blank_dev"
      "blkid_do_probe example_blank_dev \<noteq> 0" "10 \<le> dev_size example_blank_dev"
      "SB_START example_h + sizeof_sb example_h \<le> dev_size example_blank_dev"
      by (simp_all add: example_blank_dev_def example_h_simps)
    show "False \<or> magic (sb_at example_h example_blank_dev (int (SB_START example_h)))
            \<noteq> bcache_magic example_h"
      by (simp add: example_blank_sb example_magic_nonzero)
  qed
  then show ?thesis
    by (simp add: main_write_sb_def example_vars_c_def main_init_def)
qed

theorem C6_cache_format_roundtrip_witness:
  "\<exists>dev'. main_write_sb example_h example_gen
            (example_vars_c\<lparr> m_block_size := 1, m_data_offset := 24 \<rparr>) False 1
            example_blank_dev 2 = Some (None, dev', 2)
     \<and> ucast (bucket_size (sb_at example_h dev' 4096)) = (8 :: 32 word)
     \<and> ucast (block_size (sb_at example_h dev' 4096)) = (1 :: 32 word)
     \<and> set_uuid (sb_at example_h dev' 4096) = example_gen 0
     \<and> nbuckets (sb_at example_h dev' 4096) = 256
     \<and> unat (nbuckets (sb_at example_h dev' 4096)) = 1048576 div 512 div 8
     \<and> dev_size dev' = 1048576"
proof -
  obtain dev' where w: "main_write_sb example_h example_gen
            (example_vars_c\<lparr> m_block_size := 1, m_data_offset := 24 \<rparr>) False 1
            example_blank_dev 2 = Some (None, dev', 2)"
    using example_format_c by blast
  note t = C6_cache_format_roundtrip [OF example_layout_sized example_layout_faithful
      example_versions_ok example_journal_clear example_parse_c example_checks_c w]
  have "ucast (bucket_size (sb_at example_h dev' 4096)) = (8 :: 32 word)
     \<and> ucast (block_size (sb_at example_h dev' 4096)) = (1 :: 32 word)
     \<and> set_uuid (sb_at example_h dev' 4096) = example_gen 0
     \<and> nbuckets (sb_at example_h dev' 4096) = 256
     \<and> unat (nbuckets (sb_at example_h dev' 4096)) = 1048576 div 512 div 8
     \<and> dev_size dev' = 1048576"
    using t by (simp add: example_h_simps example_vars_c_def main_init_def
        example_blank_dev_def)
  with w show ?thesis by (intro exI [of _ dev']) simp
qed

text \<open>Every device that \<open>main\<close> formats carries the identifiers held by \<open>main\<close>.\<close>

lemma main_write_sb_ids:
  assumes "layout_sized H" and "layout_faithful H" and "versions_ok H"
    and "journal_clear_of_sb H" and "copies_clear_of_sb H"
    and "main_write_sb H gen st bdev sb_num dev k = Some (None, dev', k')"
  shows "primary_ids H dev' = (m_set_uuid st, m_bdev_uuid st)"
proof (cases bdev)
  case True
  have w: "write_sb H gen (m_alcubierre_dev st) (m_skip_udev_register st) dev
       (m_block_size st) (m_bucket_size st) (m_writeback st) (m_discard st) (m_wipe_bcache st)
       (m_cache_replacement_policy st) (m_data_offset st) (m_set_uuid st) True
       (m_bdev_uuid st) (m_dirty st) sb_num k = Some (None, dev', k')"
    using assms(6) True by (simp add: main_write_sb_def)
  from write_sb_backing_readback [OF assms(1,2,3,5) w] obtain sb where
    b: "build_sb H dev (m_block_size st) (m_bucket_size st) (m_writeback st) (m_discard st)
          (m_cache_replacement_policy st) (m_data_offset st) (m_set_uuid st) True
          (m_bdev_uuid st) (m_dirty st) sb_num = Inr sb"
    and r: "sb_at H dev' (int (SB_START H)) = sb"
    by blast
  from build_sb_backing(1) [OF assms(3) b] obtain sb1 where
    sb1: "sb_backing H (sb_init H True (m_set_uuid st) (m_bdev_uuid st) (m_block_size st)
            (m_bucket_size st)) (m_writeback st) (m_dirty st) (m_data_offset st) sb_num = Inr sb1"
    and sb: "sb = sb1\<lparr> csum := csum_set H sb1 \<rparr>"
    by blast
  show ?thesis
    using sb_backing_Inr(3,4) [OF sb1]
    by (simp add: primary_ids_def r sb sb_init_def)
next
  case False
  have w: "write_sb H gen (m_alcubierre_dev st) (m_skip_udev_register st) dev
       (m_block_size st) (m_bucket_size st) (m_writeback st) (m_discard st) (m_wipe_bcache st)
       (m_cache_replacement_policy st) (m_data_offset st) (m_set_uuid st) False
       (m_bdev_uuid st) (m_dirty st) sb_num k = Some (None, dev', k')"
    using assms(6) False by (simp add: main_write_sb_def)
  from write_sb_cache_readback(1) [OF assms(1-4) w] obtain sb where
    b: "build_sb H dev (m_block_size st) (m_bucket_size st) (m_writeback st) (m_discard st)
          (m_cache_replacement_policy st) (m_data_offset st) (m_set_uuid st) False
          (m_bdev_uuid st) (m_dirty st) sb_num = Inr sb"
    and r: "sb_at H dev' (int (SB_START H)) = sb"
    by blast
  show ?thesis
    using build_sb_cache(3,4) [OF assms(3) b] by (simp add: primary_ids_def r)
qed

lemma format_devices_ids:
  assumes "layout_sized H" and "layout_faithful H" and "versions_ok H"
    and "journal_clear_of_sb H" and "copies_clear_of_sb H"
    and "format_devices H gen st bdev sb_num ps w k = Some (None, w', k')"
    and "p \<in> set ps
         \<or> (\<exists>d. w p = Some d \<and> primary_ids H d = (m_set_uuid st, m_bdev_uuid st))"
  shows "\<exists>d'. w' p = Some d' \<and> primary_ids H d' = (m_set_uuid st, m_bdev_uuid st)"
  using assms(6,7)
proof (induction ps arbitrary: w k)
  case Nil
  then show ?case by simp
next
  case (Cons q qs)
  from Cons.prems(1) obtain dev where wq: "w q = Some dev"
    by (cases "w q") simp_all
  from Cons.prems(1) wq obtain dev1 k1 where
    f: "main_write_sb H gen st bdev sb_num dev k = Some (None, dev1, k1)"
    and rest: "format_devices H gen st bdev sb_num qs (w(q \<mapsto> dev1)) k1 = Some (None, w', k')"
    by (auto split: option.splits prod.splits)
  have ids1: "primary_ids H dev1 = (m_set_uuid st, m_bdev_uuid st)"
    by (rule main_write_sb_ids [OF assms(1-5) f])
  have "p \<in> set qs
         \<or> (\<exists>d. (w(q \<mapsto> dev1)) p = Some d
                \<and> primary_ids H d = (m_set_uuid st, m_bdev_uuid st))"
    using Cons.prems(2) ids1 by auto
  from Cons.IH [OF rest this] show ?case .
qed

lemma handle_opt_uuids:
  assumes "handle_opt H parse st x = Inr st'"
  shows "(\<forall>a. x \<noteq> Opt_u a) \<longrightarrow> m_set_uuid st' = m_set_uuid st"
    and "(\<forall>a. x \<noteq> Opt_v a) \<longrightarrow> m_bdev_uuid st' = m_bdev_uuid st"
    and "(\<forall>a. x \<noteq> Opt_r a) \<longrightarrow> m_sb_idx st' = m_sb_idx st"
  using assms by (cases x; auto split: sum.splits option.splits if_splits)+

lemma parse_opts_uuids:
  assumes "parse_opts H parse st opts = Inr st'"
  shows "(\<forall>a. Opt_u a \<notin> set opts) \<longrightarrow> m_set_uuid st' = m_set_uuid st"
    and "(\<forall>a. Opt_v a \<notin> set opts) \<longrightarrow> m_bdev_uuid st' = m_bdev_uuid st"
    and "(\<forall>a. Opt_r a \<notin> set opts) \<longrightarrow> m_sb_idx st' = m_sb_idx st"
  using assms
proof (induction opts arbitrary: st)
  case Nil
  {
    case 1 then show ?case by simp
  next
    case 2 then show ?case by simp
  next
    case 3 then show ?case by simp
  }
next
  case (Cons x xs)
  {
    case 1
    from 1 obtain st1 where
      h: "handle_opt H parse st x = Inr st1" and r: "parse_opts H parse st1 xs = Inr st'"
      by (auto split: sum.splits)
    show ?case using Cons.IH(1) [OF r] handle_opt_uuids(1) [OF h] by auto
  next
    case 2
    from 2 obtain st1 where
      h: "handle_opt H parse st x = Inr st1" and r: "parse_opts H parse st1 xs = Inr st'"
      by (auto split: sum.splits)
    show ?case using Cons.IH(2) [OF r] handle_opt_uuids(2) [OF h] by auto
  next
    case 3
    from 3 obtain st1 where
      h: "handle_opt H parse st x = Inr st1" and r: "parse_opts H parse st1 xs = Inr st'"
      by (auto split: sum.splits)
    show ?case using Cons.IH(3) [OF r] handle_opt_uuids(3) [OF h] by auto
  }
qed


text \<open>The example header keeps the secondary copies clear of the primary record, and a
  run over two blank devices returns.\<close>

lemma example_copies_clear: "copies_clear_of_sb example_h"
  by (auto simp: copies_clear_of_sb_def example_h_simps)

lemma example_parse_cb:
  "parse_opts example_h example_uuid_parse (main_init example_gen)
     [Opt_C, Opt_b ''4k'', Opt_arg ''/dev/sdb'', Opt_B, Opt_arg ''/dev/sdc'']
   = Inr example_vars_cb"
  by (simp add: hatoi_validate_4k main_init_def example_vars_cb_def)

lemma example_checks_cb:
  "main_checks example_h example_world2 example_vars_cb
     = Inr (example_vars_cb\<lparr> m_block_size := 1, m_data_offset := 24 \<rparr>)"
  by (simp add: main_checks_def example_vars_cb_def main_init_def get_blocksize_def
      example_world2_def example_blank_dev_def example_h_def)

lemma example_format_cb_cache:
  "\<exists>dev'. main_write_sb example_h example_gen
            (example_vars_cb\<lparr> m_block_size := 1, m_data_offset := 24 \<rparr>) False 1
            example_blank_dev 2 = Some (None, dev', 2)"
  using example_format_c
  by (simp add: main_write_sb_def example_vars_c_def example_vars_cb_def main_init_def)

lemma example_format_cb_backing:
  "\<exists>dev'. main_write_sb example_h example_gen
            (example_vars_cb\<lparr> m_block_size := 1, m_data_offset := 24 \<rparr>) True 1
            example_blank_dev 2 = Some (None, dev', 2)"
proof -
  have "\<exists>dev'. write_sb example_h example_gen False False example_blank_dev 1 8
             False False False 0 24 (example_gen 0) True (example_gen 1) False 1 2
           = Some (None, dev', 2 + 2 * nat (1 - 1))"
  proof (rule write_sb_backing_succeeds [OF example_versions_ok example_layout_sized])
    show "excl_open_ok example_blank_dev" "probe_setup_ok example_blank_dev"
      "blkid_do_probe example_blank_dev \<noteq> 0" "10 \<le> dev_size example_blank_dev"
      "SB_START example_h + sizeof_sb example_h \<le> dev_size example_blank_dev"
      by (simp_all add: example_blank_dev_def example_h_simps)
    show "False \<or> magic (sb_at example_h example_blank_dev (int (SB_START example_h)))
            \<noteq> bcache_magic example_h"
      by (simp add: example_blank_sb example_magic_nonzero)
    show "\<forall>j. 1 \<le> j \<and> j < 1 \<longrightarrow> 0 \<le> SB_OFFSET example_h j
            \<and> nat (SB_OFFSET example_h j) + sizeof_sb example_h \<le> dev_size example_blank_dev"
      by simp
    show "\<not> (if (24 :: 64 word) \<noteq> word_of_int (BDEV_DATA_START_DEFAULT example_h)
              then 24 else 0) < required_data_offset example_h 1"
      by (simp add: example_required example_h_simps c_int_def)
  qed
  then show ?thesis
    by (simp add: main_write_sb_def example_vars_cb_def main_init_def)
qed

lemma example_main_cb:
  "\<exists>w'. main example_h example_gen example_uuid_parse
           [Opt_C, Opt_b ''4k'', Opt_arg ''/dev/sdb'', Opt_B, Opt_arg ''/dev/sdc'']
           example_world2 = Some (None, w', 2)"
proof -
  obtain d1 where c: "main_write_sb example_h example_gen
            (example_vars_cb\<lparr> m_block_size := 1, m_data_offset := 24 \<rparr>) False 1
            example_blank_dev 2 = Some (None, d1, 2)"
    using example_format_cb_cache by blast
  obtain d2 where b: "main_write_sb example_h example_gen
            (example_vars_cb\<lparr> m_block_size := 1, m_data_offset := 24 \<rparr>) True 1
            example_blank_dev 2 = Some (None, d2, 2)"
    using example_format_cb_backing by blast
  have i: "m_sb_idx (example_vars_cb\<lparr> m_block_size := 1, m_data_offset := 24 \<rparr>) = - 1"
    "m_sb_num (example_vars_cb\<lparr> m_block_size := 1, m_data_offset := 24 \<rparr>) = 1"
    "m_cache_devices (example_vars_cb\<lparr> m_block_size := 1, m_data_offset := 24 \<rparr>)
       = [''/dev/sdb'']"
    "m_backing_devices (example_vars_cb\<lparr> m_block_size := 1, m_data_offset := 24 \<rparr>)
       = [''/dev/sdc'']"
    by (simp_all add: example_vars_cb_def main_init_def)
  have w: "example_world2 ''/dev/sdb'' = Some example_blank_dev"
    "example_world2 ''/dev/sdc'' = Some example_blank_dev"
    by (simp_all add: example_world2_def)
  show ?thesis
    unfolding main_def example_parse_cb
    by (simp add: example_checks_cb i w c b del: parse_opts.simps)
qed

text \<open>
  C10. \<open>main\<close> draws the set UUID and the device UUID from \<open>uuid_generate\<close> once each, as
  its first two draws, before the option loop. When no \<open>-u\<close>, \<open>-v\<close> or \<open>-r\<close> option is given,
  every device named on the command line of a run that returns, cache or backing, has
  these two identifiers in its primary record: all devices of the run share one set UUID
  and one device UUID.
\<close>

theorem C10_default_uuids_shared:
  assumes "layout_sized H" and "layout_faithful H" and "versions_ok H"
    and "journal_clear_of_sb H" and "copies_clear_of_sb H"
    and "\<forall>a. Opt_u a \<notin> set opts \<and> Opt_v a \<notin> set opts \<and> Opt_r a \<notin> set opts"
    and "parse_opts H parse (main_init gen) opts = Inr st0"
    and "main H gen parse opts w = Some (None, w', k')"
    and "p \<in> set (m_cache_devices st0) \<union> set (m_backing_devices st0)"
  shows "\<exists>dev'. w' p = Some dev' \<and> primary_ids H dev' = (gen 0, gen 1)"
proof -
  from assms(7,8) obtain st where c: "main_checks H w st0 = Inr st"
    by (cases "main_checks H w st0") (simp_all add: main_def)
  note keep = main_checks_keeps [OF c]
  have su: "m_set_uuid st = gen 0"
    using parse_opts_uuids(1) [OF assms(7)] assms(6) keep(2) by (simp add: main_init_def)
  have bu: "m_bdev_uuid st = gen 1"
    using parse_opts_uuids(2) [OF assms(7)] assms(6) keep(3) by (simp add: main_init_def)
  have idx: "\<not> 0 \<le> m_sb_idx st"
    using parse_opts_uuids(3) [OF assms(7)] assms(6) keep(9) by (simp add: main_init_def)
  from assms(7,8) c idx obtain w1 k1 where
    f1: "format_devices H gen st False 1 (m_cache_devices st) w 2 = Some (None, w1, k1)"
    and f2: "format_devices H gen st True (m_sb_num st) (m_backing_devices st) w1 k1
               = Some (None, w', k')"
    by (auto simp: main_def split: option.splits prod.splits)
  have "p \<in> set (m_backing_devices st)
         \<or> (\<exists>d. w1 p = Some d \<and> primary_ids H d = (m_set_uuid st, m_bdev_uuid st))"
  proof (cases "p \<in> set (m_cache_devices st)")
    case True
    then have "p \<in> set (m_cache_devices st)
         \<or> (\<exists>d. w p = Some d \<and> primary_ids H d = (m_set_uuid st, m_bdev_uuid st))"
      by simp
    from format_devices_ids [OF assms(1-5) f1 this] show ?thesis by simp
  next
    case False
    then show ?thesis using assms(9) keep(7,8) by simp
  qed
  from format_devices_ids [OF assms(1-5) f2 this] show ?thesis
    by (simp add: su bu)
qed

theorem C10_default_uuids_shared_witness:
  "\<exists>w'. main example_h example_gen example_uuid_parse
           [Opt_C, Opt_b ''4k'', Opt_arg ''/dev/sdb'', Opt_B, Opt_arg ''/dev/sdc'']
           example_world2 = Some (None, w', 2)
     \<and> (\<exists>d. w' ''/dev/sdb'' = Some d
            \<and> primary_ids example_h d = (example_gen 0, example_gen 1))
     \<and> (\<exists>d. w' ''/dev/sdc'' = Some d
            \<and> primary_ids example_h d = (example_gen 0, example_gen 1))"
proof -
  obtain w' where m: "main example_h example_gen example_uuid_parse
           [Opt_C, Opt_b ''4k'', Opt_arg ''/dev/sdb'', Opt_B, Opt_arg ''/dev/sdc'']
           example_world2 = Some (None, w', 2)"
    using example_main_cb by blast
  have o: "\<forall>a. Opt_u a \<notin> set [Opt_C, Opt_b ''4k'', Opt_arg ''/dev/sdb'', Opt_B,
                                 Opt_arg ''/dev/sdc'']
            \<and> Opt_v a \<notin> set [Opt_C, Opt_b ''4k'', Opt_arg ''/dev/sdb'', Opt_B,
                                 Opt_arg ''/dev/sdc'']
            \<and> Opt_r a \<notin> set [Opt_C, Opt_b ''4k'', Opt_arg ''/dev/sdb'', Opt_B,
                                 Opt_arg ''/dev/sdc'']"
    by simp
  note t = C10_default_uuids_shared [OF example_layout_sized example_layout_faithful
      example_versions_ok example_journal_clear example_copies_clear o example_parse_cb m]
  have "\<exists>d. w' ''/dev/sdb'' = Some d
            \<and> primary_ids example_h d = (example_gen 0, example_gen 1)"
    by (rule t) (simp add: example_vars_cb_def)
  moreover have "\<exists>d. w' ''/dev/sdc'' = Some d
            \<and> primary_ids example_h d = (example_gen 0, example_gen 1)"
    by (rule t) (simp add: example_vars_cb_def)
  ultimately show ?thesis using m by blast
qed

end
